theory Spec2Isabelle
  imports Main "HOL-Library.Sublist"
begin

section \<open>Turn taking and audio playback of the voice client (frontend/app.js)\<close>

text \<open>
  The client is a single-threaded event loop. Its turn logic lives in module-level
  variables (\<open>isVoiceModeActive\<close>, \<open>isListening\<close>, \<open>isAgentSpeaking\<close>,
  \<open>audioQueue\<close>, \<open>isProcessingAudio\<close>, \<open>pendingAgentDone\<close>,
  \<open>currentTypingMessage\<close>) and in a few fields of the \<open>state\<close> object; they are
  the fields of the record \<open>st\<close>, and every function of the source that writes them is a
  function from \<open>st\<close> to \<open>st\<close>.

  What the embedding leaves out: the DOM (status bar, toasts, chat bubbles), the display
  fields of \<open>state\<close> (customer info, products, activity log, current agent), the
  chat text input, the session identifier and the wall-clock timestamp of outbound
  envelopes. A DOM element the code looks up is taken to exist. The float
  arithmetic of the codec is not modelled either: a playback buffer is the list of the
  16-bit samples it was decoded from, and a captured frame is the text it was encoded to.

  A callback runs to completion together with the microtasks it starts. The places where
  the code really waits are kept: the \<open>getUserMedia\<close> promise, the \<open>onended\<close> of a
  playing source, and \<open>await initAudioContext()\<close> when the AudioContext is suspended.
  In the last case the rest of the function is parked until the context resumes, and other
  callbacks run in between.
\<close>

subsection \<open>Data\<close>

type_synonym buffer = "int list"

text \<open>
  The \<open>audio\<close> field of an inbound payload, by what \<open>handleAudioOutput\<close> and
  \<open>playAudio\<close> can do with it: \<open>NoAudio\<close> is a falsy field (absent, null or the
  empty text); \<open>Undecodable\<close> is a truthy field on which \<open>atob\<close> or
  \<open>new Int16Array\<close> throws; \<open>Pcm16 b\<close> decodes to the samples \<open>b\<close>.
\<close>

datatype audio_field = NoAudio | Undecodable | Pcm16 buffer

text \<open>
  A field that the code treats as text (\<open>data.text\<close>, \<open>data.result\<close>): \<open>Text\<close> is a
  string or a falsy value, on which the string methods the code calls succeed or are not
  reached; \<open>NotText\<close> is a truthy value without them, on which \<open>formatted.replace\<close>
  in \<open>formatMessageText\<close> or \<open>data.result.match\<close> throws a TypeError.
\<close>

datatype text_field = Text | NotText

text \<open>
  \<open>tool\<close> is \<open>Some n\<close> when \<open>data.tool\<close> is the string \<open>n\<close> and \<open>None\<close> when it
  is anything else (\<open>formatToolName\<close> then throws).
\<close>

record payload =
  audio :: audio_field
  role :: "string option"
  msg_text :: text_field
  tool :: "string option"
  result :: text_field

text \<open>
  What \<open>JSON.parse(event.data)\<close> makes of an inbound frame: it throws, it yields
  \<open>null\<close> (reading \<open>message.type\<close> then throws), or it yields a value whose
  \<open>type\<close> and \<open>data\<close> properties may each be missing (a \<open>data\<close> that is null counts
  as missing: reading a property of it throws).
\<close>

datatype inbound = Unparseable | JsonNull | Envelope "string option" "payload option"

datatype outbound = AudioInput string | Interrupt | EndSession

datatype readyState = CONNECTING | OPEN | CLOSING | CLOSED

text \<open>The console lines written by the functions below, in the order of the source.\<close>

datatype logline =
    ErrNotConnected
  | LogConnecting
  | LogWsConnected
  | LogReceived
  | LogUnknownType
  | ErrParsing
  | LogWsClosed
  | ErrWebSocket
  | LogSessionStarted
  | LogSessionEnded
  | LogUserTranscript
  | LogAudioOutput
  | LogAgentStarted
  | LogHandoff
  | LogAgentDone
  | LogStillPlaying
  | LogNoAudioPending
  | ErrServer
  | LogAddedToQueue
  | ErrPlayingAudio
  | LogQueueEmpty
  | LogProcessingPending
  | ErrStartingVoice
  | LogPausing
  | LogResuming
  | LogInterrupt
  | LogClearing

text \<open>
  The rest of a function that waits in \<open>await initAudioContext()\<close> for a suspended
  context: \<open>playAudio\<close> from line 907 with the field it was called with,
  \<open>processAudioQueue\<close> from line 948, \<open>startVoiceMode\<close> from line 1001. The click
  listener that \<open>init\<close> installs waits there too, with nothing left to do.
\<close>

datatype cont = PlayAudioTail audio_field | ProcessQueueTail | StartVoiceTail

record st =
  websocket :: "readyState option"
  isConnected :: bool
  isConversationActive :: bool
  isRecording :: bool
  mediaStream :: "nat option"
  audioProcessor :: "nat option"
  isVoiceModeActive :: bool
  isListening :: bool
  isAgentSpeaking :: bool
  audioQueue :: "buffer list"
  isProcessingAudio :: bool
  pendingAgentDone :: bool
  currentTypingMessage :: bool
  micRequests :: nat
  streamsOpened :: nat
  liveStreams :: "nat list"
  processorsCreated :: nat
  liveProcessors :: "nat list"
  contextSuspended :: bool
  parked :: "cont list"
  playing :: "buffer list"
  rendered :: "buffer list"
  sent :: "outbound list"
  console :: "logline list"

text \<open>
  \<open>websocket\<close> is \<open>None\<close> for \<open>state.websocket === null\<close> and otherwise the
  \<open>readyState\<close> of the socket. \<open>mediaStream\<close> and \<open>audioProcessor\<close> are \<open>None\<close>
  for \<open>null\<close> and otherwise name the object the variable holds: microphone streams are
  numbered in the order \<open>getUserMedia\<close> granted them, script processors in the order
  they were created. \<open>currentTypingMessage\<close> says whether the variable holds an element.

  The fields from \<open>micRequests\<close> on are the environment seen from the code.
  \<open>micRequests\<close> counts the \<open>getUserMedia\<close> promises not yet settled.
  \<open>liveStreams\<close> lists the microphone streams whose tracks have not been stopped (the
  microphone is released when there is none), \<open>liveProcessors\<close> the processors that are
  connected, \<open>streamsOpened\<close> and \<open>processorsCreated\<close> count both kinds.
  \<open>contextSuspended\<close> is \<open>audioContextInstance.state === 'suspended'\<close>, and \<open>parked\<close>
  lists the functions waiting for the context to resume, in the order they began to wait.
  \<open>playing\<close> lists the buffer sources that were started and have not ended, oldest
  first; each belongs to one suspended run of \<open>processAudioQueue\<close> waiting for its
  \<open>onended\<close>. \<open>rendered\<close> is every buffer handed to \<open>source.start()\<close>, in call
  order; \<open>sent\<close> is every envelope handed to \<open>websocket.send\<close>; \<open>console\<close> is the
  console.
\<close>

definition init :: st where
  "init = \<lparr> websocket = None, isConnected = False, isConversationActive = False,
            isRecording = False, mediaStream = None, audioProcessor = None,
            isVoiceModeActive = False, isListening = False, isAgentSpeaking = False,
            audioQueue = [], isProcessingAudio = False, pendingAgentDone = False,
            currentTypingMessage = False,
            micRequests = 0, streamsOpened = 0, liveStreams = [], processorsCreated = 0,
            liveProcessors = [], contextSuspended = False, parked = [],
            playing = [], rendered = [], sent = [], console = [] \<rparr>"

definition log :: "logline \<Rightarrow> st \<Rightarrow> st" where
  "log l s = s\<lparr>console := console s @ [l]\<rparr>"

subsection \<open>Session transport\<close>

definition sendWebSocketMessage :: "outbound \<Rightarrow> st \<Rightarrow> st" where
  "sendWebSocketMessage m s =
     (if websocket s \<noteq> Some OPEN then log ErrNotConnected s
      else s\<lparr>sent := sent s @ [m]\<rparr>)"

text \<open>
  Dropping what the two variables hold, as \<open>stopVoiceMode\<close> and \<open>resetUIState\<close> both
  do: the processor in \<open>audioProcessor\<close> is disconnected and the tracks of the stream in
  \<open>mediaStream\<close> are stopped, if there is one, and the variables are set to \<open>null\<close>.
\<close>

definition releaseCapture :: "st \<Rightarrow> st" where
  "releaseCapture s =
     (let s1 = (case audioProcessor s of
                  None \<Rightarrow> s
                | Some p \<Rightarrow> s\<lparr>liveProcessors := removeAll p (liveProcessors s),
                              audioProcessor := None\<rparr>)
      in case mediaStream s1 of
           None \<Rightarrow> s1
         | Some m \<Rightarrow> s1\<lparr>liveStreams := removeAll m (liveStreams s1), mediaStream := None\<rparr>)"

definition resetUIState :: "st \<Rightarrow> st" where
  "resetUIState s =
     (if isRecording s \<or> isVoiceModeActive s
      then releaseCapture
             (s\<lparr>isVoiceModeActive := False, isListening := False, isRecording := False\<rparr>)
      else s)\<lparr>currentTypingMessage := False\<rparr>"

definition connectWebSocket :: "st \<Rightarrow> st" where
  "connectWebSocket s =
     (if websocket s = Some OPEN then s
      else (log LogConnecting s)\<lparr>websocket := Some CONNECTING\<rparr>)"

definition disconnectWebSocket :: "st \<Rightarrow> st" where
  "disconnectWebSocket s =
     s\<lparr>websocket := None, isConnected := False, isConversationActive := False\<rparr>"

definition handleWebSocketOpen :: "st \<Rightarrow> st" where
  "handleWebSocketOpen s = (log LogWsConnected s)\<lparr>isConnected := True\<rparr>"

definition handleWebSocketClose :: "st \<Rightarrow> st" where
  "handleWebSocketClose s =
     resetUIState ((log LogWsClosed s)\<lparr>isConnected := False, isConversationActive := False\<rparr>)"

subsection \<open>Capture gate\<close>

definition pauseListening :: "st \<Rightarrow> st" where
  "pauseListening s = (log LogPausing s)\<lparr>isListening := False\<rparr>"

definition resumeListening :: "st \<Rightarrow> st" where
  "resumeListening s =
     (let s1 = log LogResuming s
      in if isVoiceModeActive s1 then s1\<lparr>isListening := True\<rparr> else s1)"

text \<open>
  \<open>startVoiceMode\<close> from the point where the \<open>getUserMedia\<close> promise settles.
  Rejected, the \<open>catch\<close> block runs. Granted, \<open>mediaStream\<close> is assigned the new
  stream, whatever it held, and the function waits for the audio context;
  \<open>startVoiceTail\<close> is the rest of the \<open>try\<close> block, which reads \<open>mediaStream\<close>
  again (\<open>createMediaStreamSource(null)\<close> throws into the \<open>catch\<close> block), assigns
  \<open>audioProcessor\<close> a new processor, whatever it held, and sets the flags.
\<close>

definition startVoiceTail :: "st \<Rightarrow> st" where
  "startVoiceTail s =
     (case mediaStream s of
        None \<Rightarrow> log ErrStartingVoice s
      | Some m \<Rightarrow>
          s\<lparr>audioProcessor := Some (processorsCreated s),
            liveProcessors := liveProcessors s @ [processorsCreated s],
            processorsCreated := Suc (processorsCreated s),
            isVoiceModeActive := True, isListening := True, isRecording := True\<rparr>)"

definition startVoiceMode :: "bool \<Rightarrow> st \<Rightarrow> st" where
  "startVoiceMode granted s =
     (if granted
      then (let s1 = s\<lparr>mediaStream := Some (streamsOpened s),
                       liveStreams := liveStreams s @ [streamsOpened s],
                       streamsOpened := Suc (streamsOpened s)\<rparr>
            in if contextSuspended s1 then s1\<lparr>parked := parked s1 @ [StartVoiceTail]\<rparr>
               else startVoiceTail s1)
      else log ErrStartingVoice s)"

definition stopVoiceMode :: "st \<Rightarrow> st" where
  "stopVoiceMode s =
     releaseCapture
       (s\<lparr>isVoiceModeActive := False, isListening := False, isRecording := False\<rparr>)"

definition onaudioprocess :: "string \<Rightarrow> st \<Rightarrow> st" where
  "onaudioprocess base64Audio s =
     (if \<not> isVoiceModeActive s \<or> \<not> isListening s then s
      else sendWebSocketMessage (AudioInput base64Audio) s)"

subsection \<open>Playback scheduler\<close>

text \<open>
  \<open>renderLoop\<close> is \<open>processAudioQueue\<close> from the test of its \<open>while\<close> loop to the
  next suspension: with a buffer queued it shifts the head, starts a source for it and
  waits for \<open>onended\<close>; with the queue empty it leaves the loop and runs the rest of the
  function. It is entered from \<open>processAudioQueue\<close> and again from every \<open>onended\<close>.
\<close>

definition renderLoop :: "st \<Rightarrow> st" where
  "renderLoop s =
     (case audioQueue s of
        b # q \<Rightarrow> s\<lparr>audioQueue := q, playing := playing s @ [b], rendered := rendered s @ [b]\<rparr>
      | [] \<Rightarrow>
          (let s1 = log LogQueueEmpty (s\<lparr>isProcessingAudio := False\<rparr>)
           in if pendingAgentDone s1
              then (let s2 = (log LogProcessingPending s1)
                               \<lparr>pendingAgentDone := False, isAgentSpeaking := False\<rparr>
                    in if isVoiceModeActive s2 then resumeListening s2 else s2)
              else s1))"

definition processAudioQueue :: "st \<Rightarrow> st" where
  "processAudioQueue s =
     (if isProcessingAudio s \<or> audioQueue s = [] then s
      else (let s1 = s\<lparr>isProcessingAudio := True\<rparr>
            in if contextSuspended s1 then s1\<lparr>parked := parked s1 @ [ProcessQueueTail]\<rparr>
               else renderLoop s1))"

text \<open>
  The \<open>onended\<close> callback of the \<open>i\<close>-th source that is playing: the source is done and
  the run of \<open>processAudioQueue\<close> that started it goes on. No source, no callback.
\<close>

definition onended :: "nat \<Rightarrow> st \<Rightarrow> st" where
  "onended i s =
     (if i < length (playing s)
      then renderLoop (s\<lparr>playing := take i (playing s) @ drop (Suc i) (playing s)\<rparr>)
      else s)"

text \<open>
  \<open>playAudio\<close> waits for the audio context first. \<open>playAudioTail\<close> is the rest of its
  \<open>try\<close> block: a field that does not decode, or decodes to no sample at all
  (\<open>createBuffer\<close> refuses a length of 0), ends in the \<open>catch\<close> block; a buffer is
  pushed and \<open>processAudioQueue\<close> called.
\<close>

definition playAudioTail :: "audio_field \<Rightarrow> st \<Rightarrow> st" where
  "playAudioTail a s =
     (case a of
        Pcm16 b \<Rightarrow>
          (if b = [] then log ErrPlayingAudio s
           else processAudioQueue (log LogAddedToQueue (s\<lparr>audioQueue := audioQueue s @ [b]\<rparr>)))
      | _ \<Rightarrow> log ErrPlayingAudio s)"

definition playAudio :: "audio_field \<Rightarrow> st \<Rightarrow> st" where
  "playAudio a s =
     (if contextSuspended s then s\<lparr>parked := parked s @ [PlayAudioTail a]\<rparr>
      else playAudioTail a s)"

definition clearAudioQueue :: "st \<Rightarrow> st" where
  "clearAudioQueue s =
     (log LogClearing s)\<lparr>audioQueue := [], isProcessingAudio := False, pendingAgentDone := False\<rparr>"

text \<open>
  The context resumes: every pending \<open>resume()\<close> promise is resolved in one task, and the
  parked functions go on in the order they began to wait. Each tail runs here to its next
  suspension before the next one starts; in the browser the first iteration of a run of
  the queue comes one microtask later, after the other tails, which leads to the same
  state, since those tails only append to the queue.
\<close>

definition resumeCont :: "st \<Rightarrow> cont \<Rightarrow> st" where
  "resumeCont s c =
     (case c of
        PlayAudioTail a \<Rightarrow> playAudioTail a s
      | ProcessQueueTail \<Rightarrow> renderLoop s
      | StartVoiceTail \<Rightarrow> startVoiceTail s)"

definition contextResumed :: "st \<Rightarrow> st" where
  "contextResumed s = foldl resumeCont (s\<lparr>contextSuspended := False, parked := []\<rparr>) (parked s)"

subsection \<open>Message handlers\<close>

text \<open>
  A handler returns \<open>Inr\<close> the state it leaves, or \<open>Inl\<close> the state at the moment it threw
  a TypeError (reading a property of a missing \<open>data\<close>, or calling a string method on a
  value that has none).
\<close>

definition handleSessionStarted :: "payload option \<Rightarrow> st \<Rightarrow> st + st" where
  "handleSessionStarted d s =
     (let s1 = (log LogSessionStarted s)\<lparr>isConversationActive := True\<rparr>
      in case d of None \<Rightarrow> Inl s1 | Some _ \<Rightarrow> Inr s1)"

definition handleSessionEnded :: "payload option \<Rightarrow> st \<Rightarrow> st + st" where
  "handleSessionEnded d s =
     Inr (resetUIState ((log LogSessionEnded s)\<lparr>isConversationActive := False\<rparr>))"

text \<open>
  \<open>updatePartialTranscript\<close> creates the typing bubble if there is none and then formats
  the text; \<open>finalizeTranscript\<close> formats the final text, if a bubble is there, and drops
  the bubble. \<open>formatMessageText\<close> is where both throw on a \<open>NotText\<close>.
\<close>

definition updatePartialTranscript :: "text_field \<Rightarrow> st \<Rightarrow> st + st" where
  "updatePartialTranscript t s =
     (let s1 = s\<lparr>currentTypingMessage := True\<rparr>
      in case t of NotText \<Rightarrow> Inl s1 | Text \<Rightarrow> Inr s1)"

definition finalizeTranscript :: "text_field \<Rightarrow> st \<Rightarrow> st + st" where
  "finalizeTranscript t s =
     (if currentTypingMessage s
      then (case t of NotText \<Rightarrow> Inl s | Text \<Rightarrow> Inr (s\<lparr>currentTypingMessage := False\<rparr>))
      else Inr s)"

text \<open>
  In \<open>handleTranscript\<close> the branch on \<open>state.currentMode === 'voice'\<close> is never taken:
  nothing assigns \<open>currentMode\<close> after its initial \<open>'chat'\<close>.
\<close>

definition handleTranscript :: "payload option \<Rightarrow> st \<Rightarrow> st + st" where
  "handleTranscript d s =
     (case d of
        None \<Rightarrow> Inl s
      | Some p \<Rightarrow>
          (if role p = Some ''assistant'' then finalizeTranscript (msg_text p) s else Inr s))"

definition handlePartialTranscript :: "payload option \<Rightarrow> st \<Rightarrow> st + st" where
  "handlePartialTranscript d s =
     (case d of
        None \<Rightarrow> Inl s
      | Some p \<Rightarrow>
          (if role p = Some ''assistant''
           then (case updatePartialTranscript (msg_text p) s of
                   Inl s1 \<Rightarrow> Inl s1
                 | Inr s1 \<Rightarrow>
                     Inr (if isVoiceModeActive s1
                          then pauseListening (s1\<lparr>isAgentSpeaking := True\<rparr>)
                          else s1))
           else Inr s))"

definition handleUserTranscript :: "payload option \<Rightarrow> st \<Rightarrow> st + st" where
  "handleUserTranscript d s =
     (case d of
        None \<Rightarrow> Inl s
      | Some p \<Rightarrow>
          (let s1 = log LogUserTranscript s
           in case msg_text p of
                NotText \<Rightarrow> Inl s1
              | Text \<Rightarrow> Inr (if isVoiceModeActive s1 then pauseListening s1 else s1)))"

definition handleAudioOutput :: "payload option \<Rightarrow> st \<Rightarrow> st + st" where
  "handleAudioOutput d s =
     (case d of
        None \<Rightarrow> Inl s
      | Some p \<Rightarrow>
          (let s1 = log LogAudioOutput s
           in Inr (if audio p \<noteq> NoAudio \<and> isVoiceModeActive s1
                   then (let s2 = (if \<not> isAgentSpeaking s1
                                   then pauseListening
                                          ((log LogAgentStarted s1)
                                             \<lparr>isAgentSpeaking := True, pendingAgentDone := False\<rparr>)
                                   else s1)
                         in playAudio (audio p) s2)
                   else s1)))"

definition handleToolCall :: "payload option \<Rightarrow> st \<Rightarrow> st + st" where
  "handleToolCall d s =
     (case d of
        None \<Rightarrow> Inl s
      | Some p \<Rightarrow> (case tool p of None \<Rightarrow> Inl s | Some n \<Rightarrow> Inr s))"

definition handleToolResult :: "payload option \<Rightarrow> st \<Rightarrow> st + st" where
  "handleToolResult d s =
     (case d of
        None \<Rightarrow> Inl s
      | Some p \<Rightarrow>
          (case tool p of
             None \<Rightarrow> Inl s
           | Some n \<Rightarrow>
               (if n = ''save_product_interest'' \<and> result p = NotText then Inl s else Inr s)))"

definition handleHandoff :: "payload option \<Rightarrow> st \<Rightarrow> st + st" where
  "handleHandoff d s =
     (let s1 = log LogHandoff s
      in case d of None \<Rightarrow> Inl s1 | Some _ \<Rightarrow> Inr s1)"

definition handleContextUpdate :: "payload option \<Rightarrow> st \<Rightarrow> st + st" where
  "handleContextUpdate d s = (case d of None \<Rightarrow> Inl s | Some _ \<Rightarrow> Inr s)"

definition handleAgentSpeaking :: "payload option \<Rightarrow> st \<Rightarrow> st + st" where
  "handleAgentSpeaking d s =
     (let s1 = s\<lparr>isAgentSpeaking := True\<rparr>
      in Inr (if isVoiceModeActive s1 then pauseListening s1 else s1))"

text \<open>
  \<open>handleAgentDone\<close> calls \<open>finalizeTranscript()\<close> without a text, which cannot throw
  and drops the typing bubble.
\<close>

definition handleAgentDone :: "payload option \<Rightarrow> st \<Rightarrow> st + st" where
  "handleAgentDone d s =
     (let s1 = (log LogAgentDone s)\<lparr>currentTypingMessage := False\<rparr>
      in Inr (if audioQueue s1 \<noteq> [] \<or> isProcessingAudio s1
              then (log LogStillPlaying s1)\<lparr>pendingAgentDone := True\<rparr>
              else (let s2 = s1\<lparr>isAgentSpeaking := False\<rparr>
                    in if isVoiceModeActive s2
                       then resumeListening (log LogNoAudioPending s2)
                       else s2)))"

definition handleError :: "payload option \<Rightarrow> st \<Rightarrow> st + st" where
  "handleError d s =
     (let s1 = log ErrServer s
      in case d of None \<Rightarrow> Inl s1 | Some _ \<Rightarrow> Inr s1)"

text \<open>The \<open>switch\<close> of \<open>handleWebSocketMessage\<close>, in its order.\<close>

definition dispatch :: "string option \<Rightarrow> payload option \<Rightarrow> st \<Rightarrow> st + st" where
  "dispatch t d s =
     (if t = Some ''session_started'' then handleSessionStarted d s
      else if t = Some ''session_ended'' then handleSessionEnded d s
      else if t = Some ''transcript'' then handleTranscript d s
      else if t = Some ''partial_transcript'' then handlePartialTranscript d s
      else if t = Some ''user_transcript'' then handleUserTranscript d s
      else if t = Some ''audio_output'' then handleAudioOutput d s
      else if t = Some ''tool_call'' then handleToolCall d s
      else if t = Some ''tool_result'' then handleToolResult d s
      else if t = Some ''handoff'' then handleHandoff d s
      else if t = Some ''context_update'' then handleContextUpdate d s
      else if t = Some ''agent_speaking'' then handleAgentSpeaking d s
      else if t = Some ''agent_done'' then handleAgentDone d s
      else if t = Some ''error'' then handleError d s
      else Inr (log LogUnknownType s))"

definition handleWebSocketMessage :: "inbound \<Rightarrow> st \<Rightarrow> st" where
  "handleWebSocketMessage m s =
     (case m of
        Unparseable \<Rightarrow> log ErrParsing s
      | JsonNull \<Rightarrow> log ErrParsing s
      | Envelope t d \<Rightarrow>
          (case dispatch t d (log LogReceived s) of
             Inl s' \<Rightarrow> log ErrParsing s'
           | Inr s' \<Rightarrow> s'))"

subsection \<open>Buttons\<close>

definition interruptClick :: "st \<Rightarrow> st" where
  "interruptClick s =
     (if \<not> isVoiceModeActive s \<or> \<not> isAgentSpeaking s then s
      else resumeListening
             ((clearAudioQueue (sendWebSocketMessage Interrupt (log LogInterrupt s)))
                \<lparr>isAgentSpeaking := False\<rparr>))"

definition voiceToggleClick :: "st \<Rightarrow> st" where
  "voiceToggleClick s =
     (if \<not> isConnected s then s
      else if isVoiceModeActive s then stopVoiceMode s
      else s\<lparr>micRequests := Suc (micRequests s)\<rparr>)"

definition endClick :: "st \<Rightarrow> st" where
  "endClick s = resetUIState (disconnectWebSocket (sendWebSocketMessage EndSession s))"

subsection \<open>The event loop\<close>

text \<open>
  One constructor for each callback the browser can run, and two for what the browser does
  to the audio context. \<open>WsOpened\<close> and \<open>WsClosed\<close> carry the change of \<open>readyState\<close>
  that precedes the callback; \<open>MicSettled\<close> settles the oldest pending \<open>getUserMedia\<close>
  promise, if there is one; \<open>AudioProcess\<close> is the \<open>onaudioprocess\<close> of a connected
  processor, if there is one. \<open>ContextSuspended\<close> is the context found or put in the state
  \<open>'suspended'\<close>, \<open>ContextResumed\<close> its return to \<open>'running'\<close>. In the browser no
  source ends while the context is suspended; \<open>step\<close> does not rule that out, so what
  holds for every event sequence holds for those of the browser.
\<close>

datatype event =
    StartClick
  | EndClick
  | WsOpened
  | WsClosed
  | WsError
  | WsMessage inbound
  | VoiceToggleClick
  | MicSettled bool
  | AudioProcess string
  | PlaybackEnded nat
  | InterruptClick
  | ContextSuspended
  | ContextResumed

fun step :: "st \<Rightarrow> event \<Rightarrow> st" where
  "step s StartClick = connectWebSocket s"
| "step s EndClick = endClick s"
| "step s WsOpened =
     (if websocket s = Some CONNECTING then handleWebSocketOpen (s\<lparr>websocket := Some OPEN\<rparr>)
      else s)"
| "step s WsClosed =
     handleWebSocketClose (s\<lparr>websocket := map_option (\<lambda>_. CLOSED) (websocket s)\<rparr>)"
| "step s WsError = log ErrWebSocket s"
| "step s (WsMessage m) = handleWebSocketMessage m s"
| "step s VoiceToggleClick = voiceToggleClick s"
| "step s (MicSettled granted) =
     (if micRequests s = 0 then s
      else startVoiceMode granted (s\<lparr>micRequests := micRequests s - 1\<rparr>))"
| "step s (AudioProcess a) = (if liveProcessors s = [] then s else onaudioprocess a s)"
| "step s (PlaybackEnded i) = onended i s"
| "step s InterruptClick = interruptClick s"
| "step s ContextSuspended = s\<lparr>contextSuspended := True\<rparr>"
| "step s ContextResumed = contextResumed s"

definition run :: "event list \<Rightarrow> st \<Rightarrow> st" where
  "run evs s = foldl step s evs"

text \<open>Inbound envelopes used below.\<close>

definition audio_output :: "buffer \<Rightarrow> event" where
  "audio_output b =
     WsMessage (Envelope (Some ''audio_output'')
                  (Some \<lparr>audio = Pcm16 b, role = None, msg_text = Text, tool = None,
                         result = Text\<rparr>))"

definition agent_done :: event where
  "agent_done = WsMessage (Envelope (Some ''agent_done'') None)"

definition agent_speaking :: event where
  "agent_speaking = WsMessage (Envelope (Some ''agent_speaking'') None)"

text \<open>Start a session and voice mode: the state is then LISTENING.\<close>

definition voice_on :: "event list" where
  "voice_on = [StartClick, WsOpened, VoiceToggleClick, MicSettled True]"

text \<open>How often \<open>resumeListening\<close> ran, and how often a run of the queue reached its end.\<close>

definition resumes :: "st \<Rightarrow> nat" where
  "resumes s = count_list (console s) LogResuming"

definition drained :: "st \<Rightarrow> nat" where
  "drained s = count_list (console s) LogQueueEmpty"

text \<open>The type tags that \<open>handleWebSocketMessage\<close> has a \<open>case\<close> for.\<close>

definition knownTags :: "string list" where
  "knownTags = [''session_started'', ''session_ended'', ''transcript'', ''partial_transcript'',
                ''user_transcript'', ''audio_output'', ''tool_call'', ''tool_result'',
                ''handoff'', ''context_update'', ''agent_speaking'', ''agent_done'', ''error'']"

subsection \<open>Invariants and observations\<close>



text \<open>
  The scheduler as it is meant to work: exactly one source plays while
  \<open>isProcessingAudio\<close> is set, and nothing plays or waits while it is not.
\<close>

definition sched_inv :: "st \<Rightarrow> bool" where
  "sched_inv s \<longleftrightarrow>
     (if isProcessingAudio s then length (playing s) = 1
      else playing s = [] \<and> audioQueue s = [])"

text \<open>Half duplex: the microphone is forwarded only in voice mode and only while the agent
  does not count as speaking.\<close>

definition exclusive :: "st \<Rightarrow> bool" where
  "exclusive s \<longleftrightarrow> (isListening s \<longrightarrow> isVoiceModeActive s \<and> \<not> isAgentSpeaking s)"

text \<open>The buffer an event delivers, if it is an \<open>audio_output\<close> message that decodes.\<close>

fun arrived :: "event \<Rightarrow> buffer list" where
  "arrived (WsMessage (Envelope t (Some p))) =
     (if t = Some ''audio_output''
      then (case audio p of Pcm16 b \<Rightarrow> [b] | _ \<Rightarrow> [])
      else [])"
| "arrived _ = []"

text \<open>The buffer a parked function will enqueue, if it will.\<close>

fun carried :: "cont \<Rightarrow> buffer list" where
  "carried (PlayAudioTail (Pcm16 b)) = [b]"
| "carried _ = []"

text \<open>The buffers started so far, followed by those waiting in the queue, followed by those
  waiting for the audio context.\<close>

definition pipeline :: "st \<Rightarrow> buffer list" where
  "pipeline s = rendered s @ audioQueue s @ concat (map carried (parked s))"

text \<open>What a callback that has nothing to do with playback leaves alone.\<close>

definition scheduler_kept :: "st \<Rightarrow> st \<Rightarrow> bool" where
  "scheduler_kept s s' \<longleftrightarrow>
     audioQueue s' = audioQueue s \<and> isProcessingAudio s' = isProcessingAudio s \<and>
     pendingAgentDone s' = pendingAgentDone s \<and> playing s' = playing s \<and>
     rendered s' = rendered s \<and> parked s' = parked s \<and>
     contextSuspended s' = contextSuspended s"

text \<open>The scheduler in order, and no run of the queue waiting for the audio context.\<close>

definition sched_ok :: "st \<Rightarrow> bool" where
  "sched_ok s \<longleftrightarrow> sched_inv s \<and> ProcessQueueTail \<notin> set (parked s)"

text \<open>
  The buffers in the pipeline are among \<open>xs\<close>, in the order of \<open>xs\<close>, and functions are
  parked only while the context is suspended.
\<close>

definition fifo_ok :: "st \<Rightarrow> buffer list \<Rightarrow> bool" where
  "fifo_ok s xs \<longleftrightarrow> subseq (pipeline s) xs \<and> (parked s \<noteq> [] \<longrightarrow> contextSuspended s)"

subsection \<open>Concrete sessions\<close>

text \<open>A session in chat mode: connected, voice mode never started (IDLE).\<close>

definition chat_state :: st where
  "chat_state = run [StartClick, WsOpened] init"

text \<open>LISTENING: voice mode just started.\<close>

definition listening_state :: st where
  "listening_state = run voice_on init"

text \<open>AGENT_SPEAKING without audio: the remote has announced that the agent speaks.\<close>

definition text_turn_state :: st where
  "text_turn_state = run (voice_on @ [agent_speaking]) init"

text \<open>AGENT_SPEAKING: two chunks have arrived, the first is rendering, the second is queued.\<close>

definition speaking_state :: st where
  "speaking_state = run (voice_on @ [audio_output [1], audio_output [2]]) init"

text \<open>AGENT_SPEAKING with three chunks: one rendering, two queued.\<close>

definition three_chunks_state :: st where
  "three_chunks_state =
     run (voice_on @ [audio_output [1], audio_output [2], audio_output [3]]) init"

text \<open>A chunk arrives, the user interrupts while it renders, and one more chunk arrives.\<close>

definition interrupted_session :: "event list" where
  "interrupted_session = voice_on @ [audio_output [1], InterruptClick, audio_output [2]]"

text \<open>A chunk arrives and, while it renders, the user switches voice mode off and on again.\<close>

definition restarted_session :: "event list" where
  "restarted_session =
     voice_on @ [audio_output [1], VoiceToggleClick, VoiceToggleClick, MicSettled True]"

text \<open>
  A chunk arrives, the user interrupts while it renders, and the remote announces the next
  utterance: the agent counts as speaking, nothing is queued, the flag is clear, and the
  interrupted buffer is still rendering.
\<close>

definition orphan_state :: st where
  "orphan_state = run (voice_on @ [audio_output [1], InterruptClick, agent_speaking]) init"

text \<open>
  The user clicks the voice toggle twice before the first permission is granted, both
  requests are granted, and the user stops voice mode.
\<close>

definition double_start :: "event list" where
  "double_start = [StartClick, WsOpened, VoiceToggleClick, VoiceToggleClick,
                   MicSettled True, MicSettled True]"

text \<open>
  The audio context is suspended when a chunk arrives; \<open>agent_done\<close> arrives before the
  context resumes, and again after it.
\<close>

definition suspended_session :: "event list" where
  "suspended_session =
     voice_on @ [ContextSuspended, audio_output [1], agent_done, ContextResumed, agent_done]"

section \<open>Properties\<close>

lemmas run_defs = run_def voice_on_def audio_output_def agent_done_def agent_speaking_def init_def
  connectWebSocket_def handleWebSocketOpen_def voiceToggleClick_def startVoiceMode_def
  startVoiceTail_def releaseCapture_def handleWebSocketMessage_def dispatch_def
  handleAudioOutput_def handleAgentSpeaking_def pauseListening_def playAudio_def
  playAudioTail_def processAudioQueue_def renderLoop_def log_def interruptClick_def
  sendWebSocketMessage_def clearAudioQueue_def resumeListening_def stopVoiceMode_def
  handleAgentDone_def onended_def onaudioprocess_def contextResumed_def resumeCont_def
  Let_def

lemmas state_defs = listening_state_def speaking_state_def three_chunks_state_def
  interrupted_session_def restarted_session_def orphan_state_def double_start_def
  suspended_session_def

lemmas more_defs = chat_state_def text_turn_state_def resumes_def drained_def

lemma run_Cons [simp]: "run (e # evs) s = run evs (step s e)"
  by (simp add: run_def)

lemma run_Nil [simp]: "run [] s = s"
  by (simp add: run_def)

lemma run_append: "run (xs @ ys) s = run ys (run xs s)"
  by (simp add: run_def)

subsection \<open>What the handlers leave alone\<close>

lemma releaseCapture_fields:
  "audioQueue (releaseCapture s) = audioQueue s"
  "isProcessingAudio (releaseCapture s) = isProcessingAudio s"
  "pendingAgentDone (releaseCapture s) = pendingAgentDone s"
  "playing (releaseCapture s) = playing s"
  "rendered (releaseCapture s) = rendered s"
  "parked (releaseCapture s) = parked s"
  "contextSuspended (releaseCapture s) = contextSuspended s"
  "isAgentSpeaking (releaseCapture s) = isAgentSpeaking s"
  "isListening (releaseCapture s) = isListening s"
  "isVoiceModeActive (releaseCapture s) = isVoiceModeActive s"
  "mediaStream (releaseCapture s) = None"
  "audioProcessor (releaseCapture s) = None"
  by (simp_all add: releaseCapture_def Let_def split: option.splits)

lemma resetUIState_fields:
  "audioQueue (resetUIState s) = audioQueue s"
  "isProcessingAudio (resetUIState s) = isProcessingAudio s"
  "pendingAgentDone (resetUIState s) = pendingAgentDone s"
  "playing (resetUIState s) = playing s"
  "rendered (resetUIState s) = rendered s"
  "parked (resetUIState s) = parked s"
  "contextSuspended (resetUIState s) = contextSuspended s"
  "isAgentSpeaking (resetUIState s) = isAgentSpeaking s"
  "\<not> isVoiceModeActive (resetUIState s)"
  "isListening (resetUIState s) \<longrightarrow> isListening s \<and> \<not> isVoiceModeActive s"
  by (simp_all add: resetUIState_def releaseCapture_fields)

lemma scheduler_kept_other_handlers:
  "handleSessionStarted d s = Inl s' \<or> handleSessionStarted d s = Inr s' \<Longrightarrow> scheduler_kept s s'"
  "handleSessionEnded d s = Inl s' \<or> handleSessionEnded d s = Inr s' \<Longrightarrow> scheduler_kept s s'"
  "handleTranscript d s = Inl s' \<or> handleTranscript d s = Inr s' \<Longrightarrow> scheduler_kept s s'"
  "handlePartialTranscript d s = Inl s' \<or> handlePartialTranscript d s = Inr s'
     \<Longrightarrow> scheduler_kept s s'"
  "handleUserTranscript d s = Inl s' \<or> handleUserTranscript d s = Inr s' \<Longrightarrow> scheduler_kept s s'"
  "handleToolCall d s = Inl s' \<or> handleToolCall d s = Inr s' \<Longrightarrow> scheduler_kept s s'"
  "handleToolResult d s = Inl s' \<or> handleToolResult d s = Inr s' \<Longrightarrow> scheduler_kept s s'"
  "handleHandoff d s = Inl s' \<or> handleHandoff d s = Inr s' \<Longrightarrow> scheduler_kept s s'"
  "handleContextUpdate d s = Inl s' \<or> handleContextUpdate d s = Inr s' \<Longrightarrow> scheduler_kept s s'"
  "handleAgentSpeaking d s = Inl s' \<or> handleAgentSpeaking d s = Inr s' \<Longrightarrow> scheduler_kept s s'"
  "handleError d s = Inl s' \<or> handleError d s = Inr s' \<Longrightarrow> scheduler_kept s s'"
  by (auto simp: handleSessionStarted_def handleSessionEnded_def handleTranscript_def
                 handlePartialTranscript_def handleUserTranscript_def handleToolCall_def
                 handleToolResult_def handleHandoff_def handleContextUpdate_def
                 handleAgentSpeaking_def handleError_def updatePartialTranscript_def
                 finalizeTranscript_def Let_def resetUIState_fields
                 pauseListening_def log_def scheduler_kept_def
           split: option.splits if_splits text_field.splits)

lemma speaking_other_handlers:
  "handleSessionStarted d s = Inl s' \<or> handleSessionStarted d s = Inr s'
     \<Longrightarrow> isAgentSpeaking s \<longrightarrow> isAgentSpeaking s'"
  "handleSessionEnded d s = Inl s' \<or> handleSessionEnded d s = Inr s'
     \<Longrightarrow> isAgentSpeaking s \<longrightarrow> isAgentSpeaking s'"
  "handleTranscript d s = Inl s' \<or> handleTranscript d s = Inr s'
     \<Longrightarrow> isAgentSpeaking s \<longrightarrow> isAgentSpeaking s'"
  "handlePartialTranscript d s = Inl s' \<or> handlePartialTranscript d s = Inr s'
     \<Longrightarrow> isAgentSpeaking s \<longrightarrow> isAgentSpeaking s'"
  "handleUserTranscript d s = Inl s' \<or> handleUserTranscript d s = Inr s'
     \<Longrightarrow> isAgentSpeaking s \<longrightarrow> isAgentSpeaking s'"
  "handleToolCall d s = Inl s' \<or> handleToolCall d s = Inr s'
     \<Longrightarrow> isAgentSpeaking s \<longrightarrow> isAgentSpeaking s'"
  "handleToolResult d s = Inl s' \<or> handleToolResult d s = Inr s'
     \<Longrightarrow> isAgentSpeaking s \<longrightarrow> isAgentSpeaking s'"
  "handleHandoff d s = Inl s' \<or> handleHandoff d s = Inr s'
     \<Longrightarrow> isAgentSpeaking s \<longrightarrow> isAgentSpeaking s'"
  "handleContextUpdate d s = Inl s' \<or> handleContextUpdate d s = Inr s'
     \<Longrightarrow> isAgentSpeaking s \<longrightarrow> isAgentSpeaking s'"
  "handleAgentSpeaking d s = Inl s' \<or> handleAgentSpeaking d s = Inr s'
     \<Longrightarrow> isAgentSpeaking s \<longrightarrow> isAgentSpeaking s'"
  "handleError d s = Inl s' \<or> handleError d s = Inr s'
     \<Longrightarrow> isAgentSpeaking s \<longrightarrow> isAgentSpeaking s'"
  by (auto simp: handleSessionStarted_def handleSessionEnded_def handleTranscript_def
                 handlePartialTranscript_def handleUserTranscript_def handleToolCall_def
                 handleToolResult_def handleHandoff_def handleContextUpdate_def
                 handleAgentSpeaking_def handleError_def updatePartialTranscript_def
                 finalizeTranscript_def Let_def resetUIState_fields
                 pauseListening_def log_def
           split: option.splits if_splits text_field.splits)

text \<open>
  A dispatched envelope is an \<open>audio_output\<close>, an \<open>agent_done\<close>, or leaves the
  scheduler alone and does not end the agent's speaking.
\<close>

lemma dispatch_cases:
  assumes "dispatch t d s = Inl s' \<or> dispatch t d s = Inr s'"
  shows "(t = Some ''audio_output'' \<and> (handleAudioOutput d s = Inl s' \<or> handleAudioOutput d s = Inr s')) \<or>
         (t = Some ''agent_done'' \<and> (handleAgentDone d s = Inl s' \<or> handleAgentDone d s = Inr s')) \<or>
         (t \<noteq> Some ''audio_output'' \<and> scheduler_kept s s' \<and> (isAgentSpeaking s \<longrightarrow> isAgentSpeaking s'))"
proof -
  have lg: "scheduler_kept s (log LogUnknownType s)"
       "isAgentSpeaking s \<longrightarrow> isAgentSpeaking (log LogUnknownType s)"
    by (simp_all add: scheduler_kept_def log_def)
  from assms show ?thesis
    unfolding dispatch_def
    using lg scheduler_kept_other_handlers [of d s s'] speaking_other_handlers [of d s s']
    by (simp split: if_splits)
qed

lemma handleWebSocketMessage_preserves:
  assumes lg: "\<And>l u. P u \<Longrightarrow> P (log l u)"
    and kept: "\<And>u u'. P u \<Longrightarrow> scheduler_kept u u' \<Longrightarrow>
                 (isAgentSpeaking u \<longrightarrow> isAgentSpeaking u') \<Longrightarrow> P u'"
    and au: "\<And>d u u'. P u \<Longrightarrow>
                 handleAudioOutput d u = Inl u' \<or> handleAudioOutput d u = Inr u' \<Longrightarrow> P u'"
    and dn: "\<And>d u u'. P u \<Longrightarrow>
                 handleAgentDone d u = Inl u' \<or> handleAgentDone d u = Inr u' \<Longrightarrow> P u'"
    and inv: "P s"
  shows "P (handleWebSocketMessage m s)"
proof (cases m)
  case Unparseable
  then show ?thesis using lg [OF inv] by (simp add: handleWebSocketMessage_def)
next
  case JsonNull
  then show ?thesis using lg [OF inv] by (simp add: handleWebSocketMessage_def)
next
  case (Envelope t d)
  let ?u = "log LogReceived s"
  have u: "P ?u" using inv by (rule lg)
  have step: "P u'" if "dispatch t d ?u = Inl u' \<or> dispatch t d ?u = Inr u'" for u'
    using dispatch_cases [OF that] u au [OF u, of d u'] dn [OF u, of d u']
      kept [OF u, of u']
    by blast
  show ?thesis
  proof (cases "dispatch t d ?u")
    case (Inl u')
    then have "P u'" using step by simp
    then have "P (log ErrParsing u')" by (rule lg)
    then show ?thesis using Envelope Inl by (simp add: handleWebSocketMessage_def)
  next
    case (Inr u')
    then have "P u'" using step by simp
    then show ?thesis using Envelope Inr by (simp add: handleWebSocketMessage_def)
  qed
qed

lemma handleAudioOutput_cases:
  assumes "handleAudioOutput d s = Inl s' \<or> handleAudioOutput d s = Inr s'"
  shows "s' = s \<or> s' = log LogAudioOutput s \<or>
         (\<exists>p. d = Some p \<and> isVoiceModeActive s \<and> isAgentSpeaking s \<and>
              s' = playAudio (audio p) (log LogAudioOutput s)) \<or>
         (\<exists>p. d = Some p \<and> isVoiceModeActive s \<and> \<not> isAgentSpeaking s \<and>
              s' = playAudio (audio p)
                     (pauseListening
                        ((log LogAgentStarted (log LogAudioOutput s))
                           \<lparr>isAgentSpeaking := True, pendingAgentDone := False\<rparr>)))"
  using assms
  by (cases d)
     (auto simp: handleAudioOutput_def Let_def log_def split: if_splits)

lemma step_kept:
  "e \<in> {StartClick, EndClick, WsOpened, WsClosed, WsError, VoiceToggleClick} \<or>
   (\<exists>a. e = AudioProcess a) \<Longrightarrow>
     scheduler_kept s (step s e) \<and> isAgentSpeaking (step s e) = isAgentSpeaking s"
  by (auto simp: scheduler_kept_def connectWebSocket_def endClick_def disconnectWebSocket_def
        sendWebSocketMessage_def handleWebSocketOpen_def handleWebSocketClose_def
        voiceToggleClick_def stopVoiceMode_def onaudioprocess_def log_def
        resetUIState_fields releaseCapture_fields split: if_splits)

subsection \<open>The invariants of the turn flags\<close>


































subsection \<open>Playback: one buffer after the other\<close>

text \<open>
  While one source plays, each completion starts the head of the queue and changes nothing
  else; \<open>k\<close> completions move \<open>k\<close> buffers from the queue to the output.
\<close>

lemma onended_shift:
  "playing s = [b] \<Longrightarrow> audioQueue s = x # q \<Longrightarrow>
     onended 0 s = s\<lparr>audioQueue := q, playing := [x], rendered := rendered s @ [x]\<rparr>"
  by (simp add: onended_def renderLoop_def)

lemma completions_render_queue:
  "playing s = [b] \<Longrightarrow> k \<le> length (audioQueue s) \<Longrightarrow>
     run (replicate k (PlaybackEnded 0)) s
       = s\<lparr>audioQueue := drop k (audioQueue s), playing := [(b # audioQueue s) ! k],
           rendered := rendered s @ take k (audioQueue s)\<rparr>"
proof (induction k arbitrary: s b)
  case 0
  then show ?case by simp
next
  case (Suc k)
  then obtain x q where xq: "audioQueue s = x # q"
    by (cases "audioQueue s") auto
  let ?s1 = "s\<lparr>audioQueue := q, playing := [x], rendered := rendered s @ [x]\<rparr>"
  have st: "step s (PlaybackEnded 0) = ?s1"
    using Suc.prems(1) xq by (simp add: onended_shift)
  have "run (replicate k (PlaybackEnded 0)) ?s1
          = ?s1\<lparr>audioQueue := drop k (audioQueue ?s1), playing := [(x # audioQueue ?s1) ! k],
                rendered := rendered ?s1 @ take k (audioQueue ?s1)\<rparr>"
    using Suc.prems(2) xq by (intro Suc.IH) simp_all
  then show ?case
    using st xq by simp
qed

lemma last_completion_pending:
  "playing s = [b] \<Longrightarrow> audioQueue s = [] \<Longrightarrow> pendingAgentDone s \<Longrightarrow> isVoiceModeActive s \<Longrightarrow>
     onended 0 s
       = s\<lparr>playing := [], isProcessingAudio := False, pendingAgentDone := False,
           isAgentSpeaking := False, isListening := True,
           console := console s @ [LogQueueEmpty, LogProcessingPending, LogResuming]\<rparr>"
  by (simp add: onended_def renderLoop_def log_def resumeListening_def Let_def)

text \<open>
  The scheduler does what it is meant to do as long as nobody interrupts: the flag
  \<open>isProcessingAudio\<close> admits one run of the queue at a time, so at most one buffer
  plays.
\<close>

lemma sched_ok_log: "sched_ok s \<Longrightarrow> sched_ok (log l s)"
  by (simp add: sched_ok_def sched_inv_def log_def)

lemma sched_ok_kept: "sched_ok s \<Longrightarrow> scheduler_kept s s' \<Longrightarrow> sched_ok s'"
  by (simp add: sched_ok_def sched_inv_def scheduler_kept_def)

lemma sched_inv_renderLoop:
  "playing s = [] \<Longrightarrow> isProcessingAudio s \<Longrightarrow> sched_inv (renderLoop s)"
  by (auto simp: sched_inv_def renderLoop_def log_def resumeListening_def Let_def
           split: list.splits)

lemma sched_ok_onended: "sched_ok s \<Longrightarrow> sched_ok (onended i s)"
proof (cases "i < length (playing s)")
  case True
  assume inv: "sched_ok s"
  with True have p: "isProcessingAudio s" "length (playing s) = 1" "i = 0"
    by (auto simp: sched_ok_def sched_inv_def split: if_splits)
  then have e: "take i (playing s) @ drop (Suc i) (playing s) = []" by simp
  have "parked (renderLoop u) = parked u" for u
    by (simp add: renderLoop_def log_def resumeListening_def Let_def split: list.splits)
  then show ?thesis
    using True p(1) e inv by (simp add: onended_def sched_ok_def sched_inv_renderLoop)
next
  case False
  assume "sched_ok s"
  then show ?thesis using False by (simp add: onended_def)
qed

lemma sched_ok_playAudioTail:
  "sched_ok s \<Longrightarrow> \<not> contextSuspended s \<Longrightarrow>
     sched_ok (playAudioTail a s) \<and> \<not> contextSuspended (playAudioTail a s)"
  by (auto simp: sched_ok_def sched_inv_def playAudioTail_def processAudioQueue_def
                 renderLoop_def log_def Let_def
           split: audio_field.splits if_splits)

lemma sched_ok_playAudio: "sched_ok s \<Longrightarrow> sched_ok (playAudio a s)"
proof (cases "contextSuspended s")
  case True
  assume "sched_ok s"
  then show ?thesis using True by (simp add: playAudio_def sched_ok_def sched_inv_def)
next
  case False
  assume "sched_ok s"
  then show ?thesis using False by (simp add: playAudio_def sched_ok_playAudioTail)
qed

lemma sched_ok_startVoiceTail:
  "sched_ok s \<Longrightarrow> \<not> contextSuspended s \<Longrightarrow>
     sched_ok (startVoiceTail s) \<and> \<not> contextSuspended (startVoiceTail s)"
  by (simp add: sched_ok_def sched_inv_def startVoiceTail_def log_def split: option.splits)

lemma sched_ok_foldl:
  "sched_ok s \<Longrightarrow> \<not> contextSuspended s \<Longrightarrow> ProcessQueueTail \<notin> set cs \<Longrightarrow>
     sched_ok (foldl resumeCont s cs)"
proof (induction cs arbitrary: s)
  case Nil
  then show ?case by simp
next
  case (Cons c cs)
  from Cons.prems have c: "c \<noteq> ProcessQueueTail" and cs: "ProcessQueueTail \<notin> set cs"
    by auto
  have "sched_ok (resumeCont s c) \<and> \<not> contextSuspended (resumeCont s c)"
    using c Cons.prems(1,2) sched_ok_playAudioTail sched_ok_startVoiceTail
    by (cases c) (simp_all add: resumeCont_def)
  with cs Cons.IH [of "resumeCont s c"] show ?case by simp
qed

lemma sched_ok_contextResumed: "sched_ok s \<Longrightarrow> sched_ok (contextResumed s)"
proof -
  assume inv: "sched_ok s"
  then have "sched_ok (s\<lparr>contextSuspended := False, parked := []\<rparr>)"
    by (simp add: sched_ok_def sched_inv_def)
  moreover have "\<not> contextSuspended (s\<lparr>contextSuspended := False, parked := []\<rparr>)" by simp
  moreover have "ProcessQueueTail \<notin> set (parked s)"
    using inv by (simp add: sched_ok_def)
  ultimately show ?thesis
    unfolding contextResumed_def by (rule sched_ok_foldl)
qed

lemma sched_ok_handleAudioOutput:
  assumes "sched_ok s"
    and "handleAudioOutput d s = Inl s' \<or> handleAudioOutput d s = Inr s'"
  shows "sched_ok s'"
proof -
  let ?t = "pauseListening
              ((log LogAgentStarted (log LogAudioOutput s))
                 \<lparr>isAgentSpeaking := True, pendingAgentDone := False\<rparr>)"
  have a: "sched_ok (log LogAudioOutput s)"
    using assms(1) by (rule sched_ok_log)
  have b: "sched_ok ?t"
    using assms(1) by (simp add: sched_ok_def sched_inv_def pauseListening_def log_def)
  from handleAudioOutput_cases [OF assms(2)] show ?thesis
    using assms(1) a sched_ok_playAudio [OF a] sched_ok_playAudio [OF b] by auto
qed

lemma sched_ok_handleAgentDone:
  "sched_ok s \<Longrightarrow> handleAgentDone d s = Inl s' \<or> handleAgentDone d s = Inr s'
     \<Longrightarrow> sched_ok s'"
  by (auto simp: handleAgentDone_def Let_def sched_ok_def sched_inv_def log_def
                 resumeListening_def
           split: if_splits)

lemma sched_ok_handleWebSocketMessage:
  "sched_ok s \<Longrightarrow> sched_ok (handleWebSocketMessage m s)"
  by (rule handleWebSocketMessage_preserves [where P = sched_ok])
     (auto intro: sched_ok_log sched_ok_kept sched_ok_handleAudioOutput
        sched_ok_handleAgentDone)

lemma sched_ok_step: "sched_ok s \<Longrightarrow> e \<noteq> InterruptClick \<Longrightarrow> sched_ok (step s e)"
proof (cases e)
  case (WsMessage m)
  assume "sched_ok s"
  then show ?thesis using WsMessage by (simp add: sched_ok_handleWebSocketMessage)
next
  case (PlaybackEnded i)
  assume "sched_ok s"
  then show ?thesis using PlaybackEnded by (simp add: sched_ok_onended)
next
  case InterruptClick
  assume "e \<noteq> InterruptClick"
  then show ?thesis using InterruptClick by simp
next
  case ContextResumed
  assume "sched_ok s"
  then show ?thesis using ContextResumed by (simp add: sched_ok_contextResumed)
next
  case ContextSuspended
  assume "sched_ok s"
  then show ?thesis using ContextSuspended by (simp add: sched_ok_def sched_inv_def)
next
  case (MicSettled g)
  assume "sched_ok s"
  then show ?thesis
    using MicSettled
    by (simp add: startVoiceMode_def startVoiceTail_def sched_ok_def sched_inv_def log_def
          Let_def)
qed (use step_kept [of e s] sched_ok_kept [of s "step s e"] in \<open>blast+\<close>)

lemma sched_ok_run:
  "sched_ok s \<Longrightarrow> InterruptClick \<notin> set evs \<Longrightarrow> sched_ok (run evs s)"
proof (induction evs arbitrary: s)
  case Nil
  then show ?case by simp
next
  case (Cons e evs)
  from Cons.prems have "e \<noteq> InterruptClick" "InterruptClick \<notin> set evs"
    by auto
  with Cons.prems(1) Cons.IH [of "step s e"] show ?case
    by (simp add: sched_ok_step)
qed

lemma no_overlap_without_interrupt:
  "InterruptClick \<notin> set evs \<Longrightarrow> length (playing (run evs init)) \<le> 1"
proof -
  assume "InterruptClick \<notin> set evs"
  moreover have "sched_ok init" by (simp add: sched_ok_def sched_inv_def init_def)
  ultimately have "sched_ok (run evs init)" by (rule sched_ok_run [rotated])
  then show ?thesis by (simp add: sched_ok_def sched_inv_def split: if_splits)
qed

text \<open>
  Order: whatever happens, the buffers are started in the order in which they arrived. Some
  may never be started (they are cleared, or arrive outside voice mode).
\<close>

lemma subseq_prefix:
  assumes "subseq (xs @ ys) zs"
  shows "subseq xs zs"
proof -
  have "subseq xs (xs @ ys)"
    by (rule list_emb_prefix) (rule subseq_order.refl)
  then show ?thesis
    using assms by (rule subseq_order.trans)
qed

lemma fifo_ok_grow: "fifo_ok s xs \<Longrightarrow> fifo_ok s (xs @ ys)"
  by (simp add: fifo_ok_def subseq_rev_drop_many)

lemma fifo_ok_kept: "fifo_ok s xs \<Longrightarrow> scheduler_kept s s' \<Longrightarrow> fifo_ok s' xs"
  by (simp add: fifo_ok_def pipeline_def scheduler_kept_def)

lemma fifo_ok_log: "fifo_ok s xs \<Longrightarrow> fifo_ok (log l s) xs"
  by (simp add: fifo_ok_def pipeline_def log_def)

lemma renderLoop_pipeline:
  "pipeline (renderLoop s) = pipeline s \<and> parked (renderLoop s) = parked s \<and>
   contextSuspended (renderLoop s) = contextSuspended s"
  by (simp add: pipeline_def renderLoop_def log_def resumeListening_def Let_def
        split: list.splits)

lemma fifo_ok_onended: "fifo_ok s xs \<Longrightarrow> fifo_ok (onended i s) xs"
proof (cases "i < length (playing s)")
  case True
  assume inv: "fifo_ok s xs"
  let ?u = "s\<lparr>playing := take i (playing s) @ drop (Suc i) (playing s)\<rparr>"
  have "fifo_ok ?u xs"
    using inv by (simp add: fifo_ok_def pipeline_def)
  then have "fifo_ok (renderLoop ?u) xs"
    using renderLoop_pipeline [of ?u] by (simp add: fifo_ok_def)
  then show ?thesis using True by (simp add: onended_def)
next
  case False
  assume "fifo_ok s xs"
  then show ?thesis using False by (simp add: onended_def)
qed

lemma playAudioTail_pipeline:
  assumes "\<not> contextSuspended s" and "parked s = []"
  shows "\<not> contextSuspended (playAudioTail a s) \<and> parked (playAudioTail a s) = [] \<and>
         (pipeline (playAudioTail a s) = pipeline s \<or>
          pipeline (playAudioTail a s) = pipeline s @ carried (PlayAudioTail a))"
proof (cases a)
  case (Pcm16 b)
  let ?t = "log LogAddedToQueue (s\<lparr>audioQueue := audioQueue s @ [b]\<rparr>)"
  have t: "pipeline ?t = pipeline s @ [b]" "\<not> contextSuspended ?t" "parked ?t = []"
    using assms by (simp_all add: pipeline_def log_def)
  have "pipeline (processAudioQueue ?t) = pipeline ?t \<and>
        \<not> contextSuspended (processAudioQueue ?t) \<and> parked (processAudioQueue ?t) = []"
  proof -
    let ?u = "?t\<lparr>isProcessingAudio := True\<rparr>"
    have "pipeline ?u = pipeline ?t" "\<not> contextSuspended ?u" "parked ?u = []"
      using t by (simp_all add: pipeline_def)
    then have "pipeline (renderLoop ?u) = pipeline ?t \<and> \<not> contextSuspended (renderLoop ?u) \<and>
               parked (renderLoop ?u) = []"
      using renderLoop_pipeline [of ?u] by simp
    then show ?thesis
      using t by (simp add: processAudioQueue_def Let_def)
  qed
  with t Pcm16 assms show ?thesis
    by (simp add: playAudioTail_def) (simp add: pipeline_def log_def)
next
  case NoAudio
  then show ?thesis using assms by (simp add: playAudioTail_def pipeline_def log_def)
next
  case Undecodable
  then show ?thesis using assms by (simp add: playAudioTail_def pipeline_def log_def)
qed

lemma resumeCont_pipeline:
  assumes "\<not> contextSuspended s" and "parked s = []"
  shows "\<not> contextSuspended (resumeCont s c) \<and> parked (resumeCont s c) = [] \<and>
         (pipeline (resumeCont s c) = pipeline s \<or>
          pipeline (resumeCont s c) = pipeline s @ carried c)"
proof (cases c)
  case (PlayAudioTail a)
  then show ?thesis
    using playAudioTail_pipeline [OF assms, of a] by (simp add: resumeCont_def)
next
  case ProcessQueueTail
  then show ?thesis
    using renderLoop_pipeline [of s] assms by (simp add: resumeCont_def)
next
  case StartVoiceTail
  then show ?thesis
    using assms
    by (simp add: resumeCont_def startVoiceTail_def pipeline_def log_def split: option.splits)
qed

lemma foldl_pipeline:
  "\<not> contextSuspended s \<Longrightarrow> parked s = [] \<Longrightarrow>
     \<not> contextSuspended (foldl resumeCont s cs) \<and> parked (foldl resumeCont s cs) = [] \<and>
     subseq (pipeline (foldl resumeCont s cs)) (pipeline s @ concat (map carried cs))"
proof (induction cs arbitrary: s)
  case Nil
  then show ?case by simp
next
  case (Cons c cs)
  let ?u = "resumeCont s c"
  note u = resumeCont_pipeline [OF Cons.prems, of c]
  from u have ih: "\<not> contextSuspended (foldl resumeCont ?u cs) \<and>
      parked (foldl resumeCont ?u cs) = [] \<and>
      subseq (pipeline (foldl resumeCont ?u cs)) (pipeline ?u @ concat (map carried cs))"
    by (intro Cons.IH) simp_all
  have "subseq (pipeline ?u @ concat (map carried cs))
          (pipeline s @ carried c @ concat (map carried cs))"
  proof -
    from u have "pipeline ?u = pipeline s \<or> pipeline ?u = pipeline s @ carried c" by simp
    then show ?thesis
    proof
      assume "pipeline ?u = pipeline s"
      then show ?thesis by (simp add: subseq_append' subseq_drop_many)
    next
      assume "pipeline ?u = pipeline s @ carried c"
      then show ?thesis by simp
    qed
  qed
  with ih have "subseq (pipeline (foldl resumeCont ?u cs))
                  (pipeline s @ carried c @ concat (map carried cs))"
    using subseq_order.trans by blast
  with ih show ?case by simp
qed

lemma fifo_ok_contextResumed: "fifo_ok s xs \<Longrightarrow> fifo_ok (contextResumed s) xs"
proof -
  assume inv: "fifo_ok s xs"
  let ?u = "s\<lparr>contextSuspended := False, parked := []\<rparr>"
  have "\<not> contextSuspended ?u" "parked ?u = []" by simp_all
  from foldl_pipeline [OF this, of "parked s"]
  have f: "\<not> contextSuspended (contextResumed s) \<and> parked (contextResumed s) = [] \<and>
           subseq (pipeline (contextResumed s)) (pipeline ?u @ concat (map carried (parked s)))"
    by (simp add: contextResumed_def)
  have "pipeline ?u @ concat (map carried (parked s)) = pipeline s"
    by (simp add: pipeline_def)
  with f have "subseq (pipeline (contextResumed s)) (pipeline s)" by simp
  moreover have "subseq (pipeline s) xs" using inv by (simp add: fifo_ok_def)
  ultimately have "subseq (pipeline (contextResumed s)) xs"
    by (rule subseq_order.trans)
  with f show ?thesis by (simp add: fifo_ok_def)
qed

lemma fifo_ok_playAudio:
  assumes "fifo_ok s xs"
  shows "fifo_ok (playAudio a s) (xs @ carried (PlayAudioTail a))"
proof (cases "contextSuspended s")
  case True
  have "pipeline (s\<lparr>parked := parked s @ [PlayAudioTail a]\<rparr>)
          = pipeline s @ carried (PlayAudioTail a)"
    by (simp add: pipeline_def)
  then show ?thesis
    using assms True by (simp add: playAudio_def fifo_ok_def)
next
  case False
  then have p: "parked s = []" using assms by (auto simp: fifo_ok_def)
  note t = playAudioTail_pipeline [OF False p, of a]
  from t have "subseq (pipeline (playAudioTail a s)) (xs @ carried (PlayAudioTail a))"
  proof (elim conjE disjE)
    assume "pipeline (playAudioTail a s) = pipeline s"
    then show ?thesis using assms by (simp add: fifo_ok_def subseq_rev_drop_many)
  next
    assume "pipeline (playAudioTail a s) = pipeline s @ carried (PlayAudioTail a)"
    then show ?thesis using assms by (simp add: fifo_ok_def)
  qed
  with t False show ?thesis by (simp add: playAudio_def fifo_ok_def)
qed

lemma fifo_ok_handleAudioOutput:
  assumes "fifo_ok s xs"
    and "handleAudioOutput d s = Inl s' \<or> handleAudioOutput d s = Inr s'"
  shows "fifo_ok s' (xs @ arrived (WsMessage (Envelope (Some ''audio_output'') d)))"
proof -
  let ?t = "pauseListening
              ((log LogAgentStarted (log LogAudioOutput s))
                 \<lparr>isAgentSpeaking := True, pendingAgentDone := False\<rparr>)"
  have a: "fifo_ok (log LogAudioOutput s) xs"
    using assms(1) by (rule fifo_ok_log)
  have b: "fifo_ok ?t xs"
    using assms(1) by (simp add: fifo_ok_def pipeline_def pauseListening_def log_def)
  have c: "arrived (WsMessage (Envelope (Some ''audio_output'') (Some p)))
             = carried (PlayAudioTail (audio p))" for p
    by (cases "audio p") simp_all
  from handleAudioOutput_cases [OF assms(2)] show ?thesis
    using assms(1) a fifo_ok_playAudio [OF a] fifo_ok_playAudio [OF b] c
    by (auto simp: fifo_ok_grow)
qed

lemma fifo_ok_handleAgentDone:
  "fifo_ok s xs \<Longrightarrow> handleAgentDone d s = Inl s' \<or> handleAgentDone d s = Inr s'
     \<Longrightarrow> fifo_ok s' xs"
  by (auto simp: handleAgentDone_def Let_def fifo_ok_def pipeline_def log_def
                 resumeListening_def
           split: if_splits)

lemma fifo_ok_dispatch:
  assumes "fifo_ok s xs"
    and "dispatch t d s = Inl s' \<or> dispatch t d s = Inr s'"
  shows "fifo_ok s' (xs @ arrived (WsMessage (Envelope t d)))"
proof -
  have other: "arrived (WsMessage (Envelope t d)) = []" if "t \<noteq> Some ''audio_output''"
    using that by (cases d) simp_all
  from dispatch_cases [OF assms(2)] show ?thesis
    using fifo_ok_handleAudioOutput [OF assms(1), of d s']
      fifo_ok_handleAgentDone [OF assms(1), of d s'] fifo_ok_kept [OF assms(1), of s'] other
    by auto
qed

lemma fifo_ok_step:
  assumes "fifo_ok s xs"
  shows "fifo_ok (step s e) (xs @ arrived e)"
proof (cases e)
  case (WsMessage m)
  show ?thesis
  proof (cases m)
    case (Envelope t d)
    have a: "fifo_ok (log LogReceived s) xs"
      using assms by (rule fifo_ok_log)
    show ?thesis
      using WsMessage Envelope fifo_ok_dispatch [OF a, of t d] fifo_ok_log
      by (auto simp: handleWebSocketMessage_def split: sum.splits)
  qed (use assms WsMessage in \<open>simp_all add: handleWebSocketMessage_def fifo_ok_log\<close>)
next
  case (PlaybackEnded i)
  then show ?thesis using assms by (simp add: fifo_ok_onended)
next
  case InterruptClick
  have "subseq (rendered s @ concat (map carried (parked s))) (pipeline s)"
    by (simp add: pipeline_def subseq_append' subseq_drop_many)
  moreover have "subseq (pipeline s) xs" using assms by (simp add: fifo_ok_def)
  ultimately have "subseq (rendered s @ concat (map carried (parked s))) xs"
    by (rule subseq_order.trans)
  then show ?thesis
    using InterruptClick assms
    by (simp add: interruptClick_def clearAudioQueue_def sendWebSocketMessage_def log_def
          resumeListening_def Let_def pipeline_def fifo_ok_def)
next
  case ContextResumed
  then show ?thesis using assms by (simp add: fifo_ok_contextResumed)
next
  case ContextSuspended
  then show ?thesis using assms by (simp add: fifo_ok_def pipeline_def)
next
  case (MicSettled g)
  then show ?thesis
    using assms
    by (auto simp: startVoiceMode_def startVoiceTail_def fifo_ok_def pipeline_def log_def
          Let_def)
qed (use step_kept [of e s] fifo_ok_kept [OF assms, of "step s e"] in \<open>auto\<close>)

lemma fifo_ok_run:
  "fifo_ok s xs \<Longrightarrow> fifo_ok (run evs s) (xs @ concat (map arrived evs))"
proof (induction evs arbitrary: s xs)
  case Nil
  then show ?case by simp
next
  case (Cons e evs)
  from Cons.IH [OF fifo_ok_step [OF Cons.prems, of e]]
  show ?case by simp
qed

lemma rendered_fifo: "subseq (rendered (run evs init)) (concat (map arrived evs))"
proof -
  have "fifo_ok init []"
    by (simp add: fifo_ok_def pipeline_def init_def)
  from fifo_ok_run [OF this, of evs]
  have "subseq (pipeline (run evs init)) (concat (map arrived evs))"
    by (simp add: fifo_ok_def)
  then show ?thesis
    unfolding pipeline_def by (rule subseq_prefix)
qed

text \<open>
  Claim C1 (for every interleaving of enqueue, completion and clear, buffers render in FIFO
  order and never two at a time) fails in its second half. \<open>clearAudioQueue\<close> resets
  \<open>isProcessingAudio\<close> but cannot stop the source that is playing, which is a local of
  \<open>processAudioQueue\<close>; the next chunk then finds the flag clear and starts a second run
  of the queue. In the session below buffer \<open>[1]\<close> is rendering when the user interrupts,
  it is still rendering after the clear, and buffer \<open>[2]\<close> is started beside it.
\<close>

theorem overlap_after_interrupt:
  "playing (run (voice_on @ [audio_output [1]]) init) = [[1]] \<and>
   playing (run (voice_on @ [audio_output [1], InterruptClick]) init) = [[1]] \<and>
   audioQueue (run (voice_on @ [audio_output [1], InterruptClick]) init) = [] \<and>
   playing (run interrupted_session init) = [[1], [2]] \<and>
   rendered (run interrupted_session init) = [[1], [2]]"
  by (simp add: state_defs run_defs)

text \<open>
  Claim C2 as stated (a clear stops and discards every buffered and in-flight buffer,
  suppresses every late completion of the cleared generation and signals queue-drained
  exactly once) is false on the code. From AGENT_SPEAKING with \<open>[1]\<close> rendering, the
  clear leaves \<open>[1]\<close> rendering and does not reach the end-of-queue code, so nothing
  signals that the queue is drained. And a completion is not suppressed for belonging to a
  cleared batch: when \<open>agent_done\<close> has arrived for the next batch, the completion of
  \<open>[1]\<close> hands the turn over while \<open>[2]\<close> is rendering.
\<close>

theorem clear_counterexample:
  "playing speaking_state = [[1]] \<and>
   playing (clearAudioQueue speaking_state) = [[1]] \<and>
   drained (clearAudioQueue speaking_state) = drained speaking_state \<and>
   \<not> isListening (run (interrupted_session @ [agent_done]) init) \<and>
   playing (run (interrupted_session @ [agent_done]) init) = [[1], [2]] \<and>
   isListening (run (interrupted_session @ [agent_done, PlaybackEnded 0]) init) \<and>
   playing (run (interrupted_session @ [agent_done, PlaybackEnded 0]) init) = [[2]]"
  by (simp add: state_defs more_defs run_defs)

text \<open>
  Claim C2, amended. \<open>clearAudioQueue\<close> discards every buffer that waits in the queue and
  resets \<open>isProcessingAudio\<close> and \<open>pendingAgentDone\<close>. It signals nothing itself: the
  end-of-queue code does not run, no listening is resumed, the turn flags and the wire are
  left to the caller. Because the pending flag is reset, a completion callback that arrives
  next (for any source \<open>i\<close>) finds the queue empty, starts nothing and hands over no turn.
\<close>

theorem clear_effect:
  "audioQueue (clearAudioQueue s) = [] \<and>
   \<not> isProcessingAudio (clearAudioQueue s) \<and>
   \<not> pendingAgentDone (clearAudioQueue s) \<and>
   drained (clearAudioQueue s) = drained s \<and>
   resumes (clearAudioQueue s) = resumes s \<and>
   isListening (clearAudioQueue s) = isListening s \<and>
   isAgentSpeaking (clearAudioQueue s) = isAgentSpeaking s \<and>
   sent (clearAudioQueue s) = sent s \<and>
   audioQueue (onended i (clearAudioQueue s)) = [] \<and>
   rendered (onended i (clearAudioQueue s)) = rendered s \<and>
   resumes (onended i (clearAudioQueue s)) = resumes s \<and>
   isListening (onended i (clearAudioQueue s)) = isListening s \<and>
   isAgentSpeaking (onended i (clearAudioQueue s)) = isAgentSpeaking s"
  by (simp add: clearAudioQueue_def onended_def renderLoop_def log_def resumes_def drained_def)

subsection \<open>The end of the agent's turn\<close>

text \<open>
  Claim C3 as stated (whenever \<open>agent_done\<close> is handled, listening resumes at once if
  and only if nothing is queued or rendering, and otherwise exactly once, later, when the
  queue is drained) is false on the code. The code resumes only in voice mode: in chat
  mode \<open>agent_done\<close> with nothing queued or rendering resumes nothing, and when voice
  mode is switched off between \<open>agent_done\<close> and the end of playback, the queue drains
  and listening is never resumed. And the code asks the flag \<open>isProcessingAudio\<close>, not
  the output: after an interrupt the flag is clear while the interrupted buffer \<open>[1]\<close>
  still renders, and \<open>agent_done\<close> resumes at once.
\<close>

theorem agent_done_counterexample:
  "\<not> isVoiceModeActive chat_state \<and> audioQueue chat_state = [] \<and>
   \<not> isProcessingAudio chat_state \<and> playing chat_state = [] \<and>
   \<not> isListening (step chat_state agent_done) \<and>
   resumes (step chat_state agent_done) = 0 \<and>
   isVoiceModeActive speaking_state \<and>
   pendingAgentDone (step speaking_state agent_done) \<and>
   playing (run [agent_done, VoiceToggleClick, PlaybackEnded 0, PlaybackEnded 0] speaking_state) = [] \<and>
   audioQueue (run [agent_done, VoiceToggleClick, PlaybackEnded 0, PlaybackEnded 0] speaking_state) = [] \<and>
   \<not> isListening (run [agent_done, VoiceToggleClick, PlaybackEnded 0, PlaybackEnded 0] speaking_state) \<and>
   resumes (run [agent_done, VoiceToggleClick, PlaybackEnded 0, PlaybackEnded 0] speaking_state) = 0 \<and>
   isVoiceModeActive orphan_state \<and> audioQueue orphan_state = [] \<and>
   playing orphan_state = [[1]] \<and> \<not> isListening orphan_state \<and>
   isListening (step orphan_state agent_done) \<and>
   playing (step orphan_state agent_done) = [[1]]"
  by (simp add: state_defs more_defs run_defs)

text \<open>
  Claim C3, amended: whenever \<open>agent_done\<close> is handled while voice mode is active and
  the scheduler is in order (exactly one buffer renders while \<open>isProcessingAudio\<close> is
  set, none renders or waits while it is clear), listening resumes immediately if and only
  if the queue is empty and no buffer is rendering (one call of \<open>resumeListening\<close>, in
  that step); otherwise \<open>pendingAgentDone\<close> is set and nothing is resumed in that step.
  If playback then runs to its end (a buffer is rendering and the completion callbacks
  follow), the first \<open>k\<close> completions, for every \<open>k\<close> up to the length of the queue,
  leave the flag pending and resume nothing, and the completion after them, which finds
  the queue empty, clears both flags and resumes listening: exactly one resume. What
  happens when an earlier clear has left a buffer rendering under a clear flag is not part
  of the statement.
\<close>

theorem agent_done_handover:
  "isVoiceModeActive s \<Longrightarrow> sched_inv s \<Longrightarrow>
   (audioQueue s = [] \<and> playing s = [] \<longrightarrow>
      isListening (step s agent_done) \<and> \<not> isAgentSpeaking (step s agent_done) \<and>
      resumes (step s agent_done) = Suc (resumes s)) \<and>
   (audioQueue s \<noteq> [] \<or> playing s \<noteq> [] \<longrightarrow>
      pendingAgentDone (step s agent_done) \<and>
      resumes (step s agent_done) = resumes s \<and>
      isListening (step s agent_done) = isListening s \<and>
      isAgentSpeaking (step s agent_done) = isAgentSpeaking s) \<and>
   (playing s \<noteq> [] \<longrightarrow>
      (\<forall>k \<le> length (audioQueue s).
          pendingAgentDone (run (replicate k (PlaybackEnded 0)) (step s agent_done)) \<and>
          resumes (run (replicate k (PlaybackEnded 0)) (step s agent_done)) = resumes s \<and>
          isListening (run (replicate k (PlaybackEnded 0)) (step s agent_done)) = isListening s) \<and>
      isListening (run (replicate (Suc (length (audioQueue s))) (PlaybackEnded 0)) (step s agent_done)) \<and>
      \<not> isAgentSpeaking (run (replicate (Suc (length (audioQueue s))) (PlaybackEnded 0)) (step s agent_done)) \<and>
      \<not> pendingAgentDone (run (replicate (Suc (length (audioQueue s))) (PlaybackEnded 0)) (step s agent_done)) \<and>
      playing (run (replicate (Suc (length (audioQueue s))) (PlaybackEnded 0)) (step s agent_done)) = [] \<and>
      resumes (run (replicate (Suc (length (audioQueue s))) (PlaybackEnded 0)) (step s agent_done))
        = Suc (resumes s))"
proof -
  assume voice: "isVoiceModeActive s" and sched: "sched_inv s"
  let ?s' = "step s agent_done"
  have idle: "\<not> isProcessingAudio s" if "playing s = []"
    using sched that by (auto simp: sched_inv_def split: if_splits)
  have busy: "isProcessingAudio s" if "audioQueue s \<noteq> [] \<or> playing s \<noteq> []"
    using sched that by (auto simp: sched_inv_def split: if_splits)
  have one: "\<exists>b. playing s = [b]" if "playing s \<noteq> []"
    using sched busy that by (cases "playing s") (auto simp: sched_inv_def)
  have now: "audioQueue s = [] \<and> playing s = [] \<longrightarrow>
      isListening ?s' \<and> \<not> isAgentSpeaking ?s' \<and> resumes ?s' = Suc (resumes s)"
    using voice idle
    by (auto simp: agent_done_def handleWebSocketMessage_def dispatch_def handleAgentDone_def
          resumeListening_def log_def Let_def resumes_def)
  have later: "pendingAgentDone ?s' \<and> console ?s' = console s @ [LogReceived, LogAgentDone, LogStillPlaying] \<and>
      isListening ?s' = isListening s \<and> isAgentSpeaking ?s' = isAgentSpeaking s \<and>
      playing ?s' = playing s \<and> audioQueue ?s' = audioQueue s \<and>
      isVoiceModeActive ?s' = isVoiceModeActive s"
    if "isProcessingAudio s"
    using that
    by (simp add: agent_done_def handleWebSocketMessage_def dispatch_def handleAgentDone_def
          log_def Let_def)
  have wait: "audioQueue s \<noteq> [] \<or> playing s \<noteq> [] \<longrightarrow>
      pendingAgentDone ?s' \<and> resumes ?s' = resumes s \<and>
      isListening ?s' = isListening s \<and> isAgentSpeaking ?s' = isAgentSpeaking s"
    using later busy by (auto simp: resumes_def)
  have drain: "(\<forall>k \<le> length (audioQueue s).
          pendingAgentDone (run (replicate k (PlaybackEnded 0)) ?s') \<and>
          resumes (run (replicate k (PlaybackEnded 0)) ?s') = resumes s \<and>
          isListening (run (replicate k (PlaybackEnded 0)) ?s') = isListening s) \<and>
      isListening (run (replicate (Suc (length (audioQueue s))) (PlaybackEnded 0)) ?s') \<and>
      \<not> isAgentSpeaking (run (replicate (Suc (length (audioQueue s))) (PlaybackEnded 0)) ?s') \<and>
      \<not> pendingAgentDone (run (replicate (Suc (length (audioQueue s))) (PlaybackEnded 0)) ?s') \<and>
      playing (run (replicate (Suc (length (audioQueue s))) (PlaybackEnded 0)) ?s') = [] \<and>
      resumes (run (replicate (Suc (length (audioQueue s))) (PlaybackEnded 0)) ?s')
        = Suc (resumes s)"
    if pl: "playing s \<noteq> []"
  proof -
    from one [OF pl] obtain b where b: "playing s = [b]" ..
    have proc: "isProcessingAudio s" using busy pl by simp
    note p = later [OF proc]
    have plp: "playing ?s' = [b]" using p b by simp
    have shift: "run (replicate k (PlaybackEnded 0)) ?s'
        = ?s'\<lparr>audioQueue := drop k (audioQueue ?s'), playing := [(b # audioQueue ?s') ! k],
               rendered := rendered ?s' @ take k (audioQueue ?s')\<rparr>"
      if "k \<le> length (audioQueue s)" for k
      using that p by (intro completions_render_queue [OF plp]) simp
    have before: "\<forall>k \<le> length (audioQueue s).
          pendingAgentDone (run (replicate k (PlaybackEnded 0)) ?s') \<and>
          resumes (run (replicate k (PlaybackEnded 0)) ?s') = resumes s \<and>
          isListening (run (replicate k (PlaybackEnded 0)) ?s') = isListening s"
      using shift p by (simp add: resumes_def)
    let ?n = "length (audioQueue s)"
    let ?q = "run (replicate ?n (PlaybackEnded 0)) ?s'"
    have rs: "replicate (Suc ?n) (PlaybackEnded 0)
                = replicate ?n (PlaybackEnded 0) @ [PlaybackEnded 0]"
      by (simp add: replicate_append_same)
    have fin: "run (replicate (Suc ?n) (PlaybackEnded 0)) ?s' = onended 0 ?q"
      unfolding rs run_append by simp
    have q: "playing ?q = [(b # audioQueue s) ! ?n] \<and> audioQueue ?q = [] \<and>
             pendingAgentDone ?q \<and> isVoiceModeActive ?q \<and> console ?q = console ?s'"
      using shift [of ?n] voice p by simp
    have "onended 0 ?q = ?q\<lparr>playing := [], isProcessingAudio := False,
           pendingAgentDone := False, isAgentSpeaking := False, isListening := True,
           console := console ?q @ [LogQueueEmpty, LogProcessingPending, LogResuming]\<rparr>"
      using q by (intro last_completion_pending) simp_all
    then have after: "isListening (onended 0 ?q) \<and> \<not> isAgentSpeaking (onended 0 ?q) \<and>
        \<not> pendingAgentDone (onended 0 ?q) \<and> playing (onended 0 ?q) = [] \<and>
        resumes (onended 0 ?q) = Suc (resumes s)"
      using q p by (simp add: resumes_def)
    show ?thesis
      unfolding fin using before after by blast
  qed
  show ?thesis
    using now wait drain by blast
qed

theorem agent_done_handover_witness:
  "isVoiceModeActive three_chunks_state \<and> sched_inv three_chunks_state \<and>
   playing three_chunks_state = [[1]] \<and> audioQueue three_chunks_state = [[2], [3]] \<and>
   \<not> isListening three_chunks_state \<and>
   pendingAgentDone (step three_chunks_state agent_done) \<and>
   \<not> isListening (step three_chunks_state agent_done) \<and>
   \<not> isListening (run (replicate 2 (PlaybackEnded 0)) (step three_chunks_state agent_done)) \<and>
   resumes (run (replicate 2 (PlaybackEnded 0)) (step three_chunks_state agent_done))
     = resumes three_chunks_state \<and>
   isListening (run (replicate 3 (PlaybackEnded 0)) (step three_chunks_state agent_done)) \<and>
   \<not> pendingAgentDone (run (replicate 3 (PlaybackEnded 0)) (step three_chunks_state agent_done)) \<and>
   resumes (run (replicate 3 (PlaybackEnded 0)) (step three_chunks_state agent_done))
     = Suc (resumes three_chunks_state) \<and>
   isVoiceModeActive text_turn_state \<and> sched_inv text_turn_state \<and>
   audioQueue text_turn_state = [] \<and> playing text_turn_state = [] \<and>
   \<not> isListening text_turn_state \<and>
   isListening (step text_turn_state agent_done) \<and>
   resumes (step text_turn_state agent_done) = Suc (resumes text_turn_state)"
proof -
  have a: "isVoiceModeActive three_chunks_state \<and> sched_inv three_chunks_state \<and>
           playing three_chunks_state = [[1]] \<and> audioQueue three_chunks_state = [[2], [3]] \<and>
           \<not> isListening three_chunks_state"
    by (simp add: state_defs run_defs sched_inv_def)
  have b: "isVoiceModeActive text_turn_state \<and> sched_inv text_turn_state \<and>
           audioQueue text_turn_state = [] \<and> playing text_turn_state = [] \<and>
           \<not> isListening text_turn_state"
    by (simp add: more_defs run_defs sched_inv_def)
  have n2: "(2::nat) \<le> length (audioQueue three_chunks_state)"
       and n3: "Suc (length (audioQueue three_chunks_state)) = 3"
       and ne: "playing three_chunks_state \<noteq> []"
    using a by simp_all
  from a have v: "isVoiceModeActive three_chunks_state" "sched_inv three_chunks_state"
    by simp_all
  from b have w: "isVoiceModeActive text_turn_state" "sched_inv text_turn_state"
    by simp_all
  note h = agent_done_handover [OF v]
  note g = agent_done_handover [OF w]
  from h ne a have h2: "pendingAgentDone (step three_chunks_state agent_done) \<and>
      isListening (step three_chunks_state agent_done) = isListening three_chunks_state"
    by blast
  from h ne n2 have h3:
    "resumes (run (replicate 2 (PlaybackEnded 0)) (step three_chunks_state agent_done))
        = resumes three_chunks_state \<and>
     isListening (run (replicate 2 (PlaybackEnded 0)) (step three_chunks_state agent_done))
        = isListening three_chunks_state"
    by blast
  from h ne have h4:
    "isListening (run (replicate (Suc (length (audioQueue three_chunks_state))) (PlaybackEnded 0))
                   (step three_chunks_state agent_done)) \<and>
     \<not> pendingAgentDone (run (replicate (Suc (length (audioQueue three_chunks_state))) (PlaybackEnded 0))
                   (step three_chunks_state agent_done)) \<and>
     resumes (run (replicate (Suc (length (audioQueue three_chunks_state))) (PlaybackEnded 0))
                   (step three_chunks_state agent_done)) = Suc (resumes three_chunks_state)"
    by blast
  from g b have g1: "isListening (step text_turn_state agent_done) \<and>
      resumes (step text_turn_state agent_done) = Suc (resumes text_turn_state)"
    by blast
  show ?thesis
    using a b h2 h3 h4 [unfolded n3] g1 by simp
qed

subsection \<open>Interrupt\<close>

text \<open>
  Claim C4 as stated (every interrupt in voice mode, in AGENT_SPEAKING or in LISTENING,
  clears the queue and the pending flag, enables capture and sends one interrupt message)
  is false in LISTENING: the handler returns at its guard and sends nothing.
\<close>

theorem interrupt_while_listening_counterexample:
  "isVoiceModeActive listening_state \<and> isListening listening_state \<and>
   \<not> isAgentSpeaking listening_state \<and> websocket listening_state = Some OPEN \<and>
   sent (interruptClick listening_state) = []"
  by (simp add: state_defs run_defs)

text \<open>
  Claim C4, amended: for every interrupt issued while voice mode is active and
  \<open>isAgentSpeaking\<close> is set, the handler empties the queue, clears
  \<open>isProcessingAudio\<close>, \<open>pendingAgentDone\<close> and \<open>isAgentSpeaking\<close>, sets
  \<open>isListening\<close>, and hands one interrupt message to the socket if the connection is
  open (none otherwise). Issued in any other state, LISTENING included, it does nothing.
\<close>

theorem interrupt_effect:
  "(isVoiceModeActive s \<and> isAgentSpeaking s \<longrightarrow>
      audioQueue (interruptClick s) = [] \<and>
      \<not> isProcessingAudio (interruptClick s) \<and>
      \<not> pendingAgentDone (interruptClick s) \<and>
      \<not> isAgentSpeaking (interruptClick s) \<and>
      isVoiceModeActive (interruptClick s) \<and>
      isListening (interruptClick s) \<and>
      sent (interruptClick s)
        = (if websocket s = Some OPEN then sent s @ [Interrupt] else sent s)) \<and>
   (\<not> (isVoiceModeActive s \<and> isAgentSpeaking s) \<longrightarrow> interruptClick s = s)"
  by (simp add: interruptClick_def clearAudioQueue_def sendWebSocketMessage_def log_def
        resumeListening_def Let_def)

theorem interrupt_effect_witness:
  "isVoiceModeActive speaking_state \<and> isAgentSpeaking speaking_state \<and>
   audioQueue speaking_state = [[2]] \<and> websocket speaking_state = Some OPEN \<and>
   sent speaking_state = [] \<and>
   audioQueue (interruptClick speaking_state) = [] \<and>
   \<not> pendingAgentDone (interruptClick speaking_state) \<and>
   \<not> isAgentSpeaking (interruptClick speaking_state) \<and>
   isListening (interruptClick speaking_state) \<and>
   sent (interruptClick speaking_state) = [Interrupt] \<and>
   \<not> isAgentSpeaking listening_state \<and>
   interruptClick listening_state = listening_state"
proof -
  have a: "isVoiceModeActive speaking_state \<and> isAgentSpeaking speaking_state \<and>
           audioQueue speaking_state = [[2]] \<and> websocket speaking_state = Some OPEN \<and>
           sent speaking_state = []"
    by (simp add: state_defs run_defs)
  have b: "\<not> isAgentSpeaking listening_state"
    by (simp add: state_defs run_defs)
  show ?thesis
    using a b interrupt_effect [of speaking_state] interrupt_effect [of listening_state]
    by simp
qed

text \<open>
  Claim C6 as stated (two interrupts in a row leave the state of one, LISTENING with an
  empty queue, and exactly one interrupt message on the wire) is false where the first
  interrupt has no effect: in LISTENING two interrupts send no message at all, and in chat
  mode they do not lead to LISTENING.
\<close>

theorem interrupt_twice_counterexample:
  "isVoiceModeActive listening_state \<and> isListening listening_state \<and>
   websocket listening_state = Some OPEN \<and>
   sent (interruptClick (interruptClick listening_state)) = [] \<and>
   \<not> isListening (interruptClick (interruptClick chat_state))"
  by (simp add: state_defs more_defs run_defs)

text \<open>
  Claim C6, amended: issuing interrupt twice in a row is equivalent to issuing it once, in
  every state. Issued while voice mode is active and \<open>isAgentSpeaking\<close> is set, the two
  leave the queue empty, capture enabled, the agent not speaking and the pending flag clear,
  with exactly one interrupt message on the wire if the connection is open; a completion
  callback that arrives next, before any other event, hands over no turn. Issued in any
  other state they change nothing and send nothing.
\<close>

theorem interrupt_idempotent:
  "interruptClick (interruptClick s) = interruptClick s \<and>
   (isVoiceModeActive s \<and> isAgentSpeaking s \<longrightarrow>
      audioQueue (interruptClick (interruptClick s)) = [] \<and>
      isListening (interruptClick (interruptClick s)) \<and>
      \<not> isAgentSpeaking (interruptClick (interruptClick s)) \<and>
      \<not> pendingAgentDone (interruptClick (interruptClick s)) \<and>
      sent (interruptClick (interruptClick s))
        = (if websocket s = Some OPEN then sent s @ [Interrupt] else sent s) \<and>
      (\<forall>i. isListening (onended i (interruptClick (interruptClick s))) \<and>
           \<not> isAgentSpeaking (onended i (interruptClick (interruptClick s))) \<and>
           resumes (onended i (interruptClick (interruptClick s)))
             = resumes (interruptClick s))) \<and>
   (\<not> (isVoiceModeActive s \<and> isAgentSpeaking s) \<longrightarrow>
      interruptClick (interruptClick s) = s)"
proof -
  have idem: "interruptClick (interruptClick s) = interruptClick s"
    by (simp add: interruptClick_def clearAudioQueue_def sendWebSocketMessage_def log_def
          resumeListening_def Let_def)
  have eff: "audioQueue (interruptClick s) = [] \<and> isListening (interruptClick s) \<and>
      \<not> isAgentSpeaking (interruptClick s) \<and> \<not> pendingAgentDone (interruptClick s) \<and>
      sent (interruptClick s) = (if websocket s = Some OPEN then sent s @ [Interrupt] else sent s)"
    if "isVoiceModeActive s \<and> isAgentSpeaking s"
    using that
    by (simp add: interruptClick_def clearAudioQueue_def sendWebSocketMessage_def log_def
          resumeListening_def Let_def)
  have late: "isListening (onended i t) \<and> \<not> isAgentSpeaking (onended i t) \<and>
      resumes (onended i t) = resumes t"
    if "audioQueue t = []" "isListening t" "\<not> isAgentSpeaking t" "\<not> pendingAgentDone t" for i t
    using that by (simp add: onended_def renderLoop_def log_def resumes_def)
  have noop: "interruptClick s = s" if "\<not> (isVoiceModeActive s \<and> isAgentSpeaking s)"
    using that by (auto simp: interruptClick_def)
  show ?thesis
    unfolding idem using eff late noop by blast
qed

theorem interrupt_idempotent_witness:
  "isVoiceModeActive speaking_state \<and> isAgentSpeaking speaking_state \<and>
   websocket speaking_state = Some OPEN \<and> sent speaking_state = [] \<and>
   interruptClick (interruptClick speaking_state) = interruptClick speaking_state \<and>
   audioQueue (interruptClick (interruptClick speaking_state)) = [] \<and>
   isListening (interruptClick (interruptClick speaking_state)) \<and>
   sent (interruptClick (interruptClick speaking_state)) = [Interrupt] \<and>
   isListening (onended 0 (interruptClick (interruptClick speaking_state))) \<and>
   \<not> isAgentSpeaking listening_state \<and>
   interruptClick (interruptClick listening_state) = listening_state"
proof -
  have a: "isVoiceModeActive speaking_state \<and> isAgentSpeaking speaking_state \<and>
           websocket speaking_state = Some OPEN \<and> sent speaking_state = []"
    by (simp add: state_defs run_defs)
  have b: "\<not> isAgentSpeaking listening_state"
    by (simp add: state_defs run_defs)
  note h = interrupt_idempotent [of speaking_state]
  from h have h1: "interruptClick (interruptClick speaking_state) = interruptClick speaking_state"
    by blast
  from h a
  have h2: "audioQueue (interruptClick (interruptClick speaking_state)) = [] \<and>
      isListening (interruptClick (interruptClick speaking_state)) \<and>
      isListening (onended 0 (interruptClick (interruptClick speaking_state)))"
    by blast
  from h a
  have "sent (interruptClick (interruptClick speaking_state))
          = (if websocket speaking_state = Some OPEN then sent speaking_state @ [Interrupt]
             else sent speaking_state)"
    by blast
  with a have h3: "sent (interruptClick (interruptClick speaking_state)) = [Interrupt]"
    by simp
  from b interrupt_idempotent [of listening_state]
  have d: "interruptClick (interruptClick listening_state) = listening_state"
    by blast
  show ?thesis
    using a b h1 h2 h3 d by blast
qed

subsection \<open>Capture\<close>

text \<open>
  A captured frame goes on the wire exactly in voice mode, while listening, on an open
  connection.
\<close>

lemma capture_gate:
  "sent (onaudioprocess a s)
     = (if isVoiceModeActive s \<and> isListening s \<and> websocket s = Some OPEN
        then sent s @ [AudioInput a] else sent s)"
  by (simp add: onaudioprocess_def sendWebSocketMessage_def log_def)

text \<open>
  Listening and a speaking agent exclude each other after every callback but one: the
  start of voice mode while \<open>isAgentSpeaking\<close> is set, which ends at the grant of the
  microphone or, when the audio context was suspended then, at its resumption.
\<close>

lemma exclusive_log: "exclusive s \<Longrightarrow> exclusive (log l s)"
  by (simp add: exclusive_def log_def)

lemma exclusive_renderLoop: "exclusive s \<Longrightarrow> exclusive (renderLoop s)"
  by (auto simp: exclusive_def renderLoop_def log_def resumeListening_def Let_def
           split: list.splits)

lemma exclusive_onended: "exclusive s \<Longrightarrow> exclusive (onended i s)"
proof -
  assume inv: "exclusive s"
  then have "exclusive (s\<lparr>playing := take i (playing s) @ drop (Suc i) (playing s)\<rparr>)"
    by (simp add: exclusive_def)
  then show ?thesis
    by (simp add: onended_def exclusive_renderLoop inv)
qed

lemma playAudioTail_flags:
  "isListening (playAudioTail a s) = isListening s \<and>
   isVoiceModeActive (playAudioTail a s) = isVoiceModeActive s \<and>
   isAgentSpeaking (playAudioTail a s) = isAgentSpeaking s"
  by (simp add: playAudioTail_def processAudioQueue_def renderLoop_def log_def Let_def
        split: audio_field.splits list.splits)

lemma exclusive_playAudio: "exclusive s \<Longrightarrow> exclusive (playAudio a s)"
  using playAudioTail_flags [of a s] by (simp add: exclusive_def playAudio_def)

lemma exclusive_handleAudioOutput:
  assumes "exclusive s"
    and "handleAudioOutput d s = Inl s' \<or> handleAudioOutput d s = Inr s'"
  shows "exclusive s'"
proof -
  let ?t = "pauseListening
              ((log LogAgentStarted (log LogAudioOutput s))
                 \<lparr>isAgentSpeaking := True, pendingAgentDone := False\<rparr>)"
  have a: "exclusive (log LogAudioOutput s)"
    using assms(1) by (rule exclusive_log)
  have b: "exclusive ?t"
    by (simp add: exclusive_def pauseListening_def log_def)
  from handleAudioOutput_cases [OF assms(2)] show ?thesis
    using assms(1) a exclusive_playAudio [OF a] exclusive_playAudio [OF b] by auto
qed

lemma exclusive_other_handlers:
  "exclusive s \<Longrightarrow> handleSessionStarted d s = Inl s' \<or> handleSessionStarted d s = Inr s'
     \<Longrightarrow> exclusive s'"
  "exclusive s \<Longrightarrow> handleSessionEnded d s = Inl s' \<or> handleSessionEnded d s = Inr s'
     \<Longrightarrow> exclusive s'"
  "exclusive s \<Longrightarrow> handleTranscript d s = Inl s' \<or> handleTranscript d s = Inr s'
     \<Longrightarrow> exclusive s'"
  "exclusive s \<Longrightarrow> handlePartialTranscript d s = Inl s' \<or> handlePartialTranscript d s = Inr s'
     \<Longrightarrow> exclusive s'"
  "exclusive s \<Longrightarrow> handleUserTranscript d s = Inl s' \<or> handleUserTranscript d s = Inr s'
     \<Longrightarrow> exclusive s'"
  "exclusive s \<Longrightarrow> handleToolCall d s = Inl s' \<or> handleToolCall d s = Inr s'
     \<Longrightarrow> exclusive s'"
  "exclusive s \<Longrightarrow> handleToolResult d s = Inl s' \<or> handleToolResult d s = Inr s'
     \<Longrightarrow> exclusive s'"
  "exclusive s \<Longrightarrow> handleHandoff d s = Inl s' \<or> handleHandoff d s = Inr s'
     \<Longrightarrow> exclusive s'"
  "exclusive s \<Longrightarrow> handleContextUpdate d s = Inl s' \<or> handleContextUpdate d s = Inr s'
     \<Longrightarrow> exclusive s'"
  "exclusive s \<Longrightarrow> handleAgentSpeaking d s = Inl s' \<or> handleAgentSpeaking d s = Inr s'
     \<Longrightarrow> exclusive s'"
  "exclusive s \<Longrightarrow> handleAgentDone d s = Inl s' \<or> handleAgentDone d s = Inr s'
     \<Longrightarrow> exclusive s'"
  "exclusive s \<Longrightarrow> handleError d s = Inl s' \<or> handleError d s = Inr s'
     \<Longrightarrow> exclusive s'"
  using resetUIState_fields(8,9,10) [of "(log LogSessionEnded s)\<lparr>isConversationActive := False\<rparr>"]
  by (auto simp: handleSessionStarted_def handleSessionEnded_def handleTranscript_def
                 handlePartialTranscript_def handleUserTranscript_def handleToolCall_def
                 handleToolResult_def handleHandoff_def handleContextUpdate_def
                 handleAgentSpeaking_def handleAgentDone_def handleError_def
                 updatePartialTranscript_def finalizeTranscript_def Let_def
                 pauseListening_def resumeListening_def log_def exclusive_def
           split: option.splits if_splits text_field.splits)

lemma exclusive_dispatch:
  "exclusive s \<Longrightarrow> dispatch t d s = Inl s' \<or> dispatch t d s = Inr s' \<Longrightarrow> exclusive s'"
proof -
  assume inv: "exclusive s" and r: "dispatch t d s = Inl s' \<or> dispatch t d s = Inr s'"
  have lg: "exclusive (log LogUnknownType s)"
    using inv by (rule exclusive_log)
  from r show ?thesis
    unfolding dispatch_def
    using inv lg exclusive_handleAudioOutput [OF inv, of d s']
      exclusive_other_handlers [OF inv, of d s']
    by (simp split: if_splits)
qed

lemma exclusive_handleWebSocketMessage:
  "exclusive s \<Longrightarrow> exclusive (handleWebSocketMessage m s)"
proof (cases m)
  case (Envelope t d)
  assume inv: "exclusive s"
  from inv have a: "exclusive (log LogReceived s)"
    by (rule exclusive_log)
  show ?thesis
    using Envelope exclusive_dispatch [OF a, of t d] exclusive_log
    by (auto simp: handleWebSocketMessage_def split: sum.splits)
qed (simp_all add: handleWebSocketMessage_def exclusive_log)

lemma exclusive_resumeCont:
  "exclusive s \<Longrightarrow> \<not> isAgentSpeaking s \<Longrightarrow>
     exclusive (resumeCont s c) \<and> \<not> isAgentSpeaking (resumeCont s c)"
proof (cases c)
  case (PlayAudioTail a)
  assume "exclusive s" "\<not> isAgentSpeaking s"
  then show ?thesis
    using PlayAudioTail playAudioTail_flags [of a s] by (simp add: resumeCont_def exclusive_def)
next
  case ProcessQueueTail
  assume "exclusive s" "\<not> isAgentSpeaking s"
  then show ?thesis
    using ProcessQueueTail
    by (auto simp: resumeCont_def exclusive_def renderLoop_def log_def resumeListening_def
          Let_def split: list.splits)
next
  case StartVoiceTail
  assume "exclusive s" "\<not> isAgentSpeaking s"
  then show ?thesis
    using StartVoiceTail
    by (simp add: resumeCont_def exclusive_def startVoiceTail_def log_def split: option.splits)
qed

lemma exclusive_foldl:
  "exclusive s \<Longrightarrow> \<not> isAgentSpeaking s \<Longrightarrow> exclusive (foldl resumeCont s cs)"
proof (induction cs arbitrary: s)
  case Nil
  then show ?case by simp
next
  case (Cons c cs)
  from exclusive_resumeCont [OF Cons.prems, of c] Cons.IH [of "resumeCont s c"]
  show ?case by simp
qed

lemma exclusive_step:
  "exclusive s \<Longrightarrow> (e = MicSettled True \<or> e = ContextResumed \<longrightarrow> \<not> isAgentSpeaking s)
     \<Longrightarrow> exclusive (step s e)"
proof (cases e)
  case (WsMessage m)
  assume "exclusive s"
  then show ?thesis using WsMessage by (simp add: exclusive_handleWebSocketMessage)
next
  case (PlaybackEnded i)
  assume "exclusive s"
  then show ?thesis using PlaybackEnded by (simp add: exclusive_onended)
next
  case (MicSettled g)
  assume "exclusive s" "e = MicSettled True \<or> e = ContextResumed \<longrightarrow> \<not> isAgentSpeaking s"
  then show ?thesis
    using MicSettled
    by (cases g)
       (auto simp: startVoiceMode_def startVoiceTail_def exclusive_def log_def Let_def)
next
  case ContextResumed
  assume inv: "exclusive s"
    and "e = MicSettled True \<or> e = ContextResumed \<longrightarrow> \<not> isAgentSpeaking s"
  then have sp: "\<not> isAgentSpeaking s" using ContextResumed by simp
  let ?u = "s\<lparr>contextSuspended := False, parked := []\<rparr>"
  have "exclusive ?u" "\<not> isAgentSpeaking ?u"
    using inv sp by (simp_all add: exclusive_def)
  then have "exclusive (foldl resumeCont ?u (parked s))"
    by (rule exclusive_foldl)
  then show ?thesis using ContextResumed by (simp add: contextResumed_def)
next
  case VoiceToggleClick
  assume "exclusive s"
  then show ?thesis
    using VoiceToggleClick
    by (auto simp: voiceToggleClick_def stopVoiceMode_def exclusive_def releaseCapture_fields)
next
  case EndClick
  assume "exclusive s"
  then show ?thesis
    using EndClick
      resetUIState_fields(8,9,10) [of "disconnectWebSocket (sendWebSocketMessage EndSession s)"]
    by (auto simp: endClick_def exclusive_def disconnectWebSocket_def
          sendWebSocketMessage_def log_def)
next
  case WsClosed
  assume "exclusive s"
  then show ?thesis
    using WsClosed
      resetUIState_fields(8,9,10)
        [of "(log LogWsClosed (s\<lparr>websocket := map_option (\<lambda>_. CLOSED) (websocket s)\<rparr>))
               \<lparr>isConnected := False, isConversationActive := False\<rparr>"]
    by (auto simp: handleWebSocketClose_def exclusive_def log_def)
qed (auto simp: connectWebSocket_def handleWebSocketOpen_def onaudioprocess_def
       sendWebSocketMessage_def interruptClick_def clearAudioQueue_def resumeListening_def
       Let_def exclusive_def log_def)

text \<open>
  Claim C5 (after every event, frames are sent if and only if the state is LISTENING, and
  LISTENING and AGENT_SPEAKING are never true together) fails in its second half.
  \<open>stopVoiceMode\<close> leaves \<open>isAgentSpeaking\<close> and the playback untouched, and
  \<open>startVoiceMode\<close> sets \<open>isListening\<close> without looking at either. In the session
  below the user switches voice mode off and on while buffer \<open>[1]\<close> renders: the client
  is then listening with the agent speaking and its audio playing, and the next captured
  frame is sent.
\<close>

theorem listening_while_agent_speaking:
  "isVoiceModeActive (run restarted_session init) \<and>
   isListening (run restarted_session init) \<and>
   isAgentSpeaking (run restarted_session init) \<and>
   playing (run restarted_session init) = [[1]] \<and>
   sent (run restarted_session init) = [] \<and>
   sent (step (run restarted_session init) (AudioProcess ''AAAA'')) = [AudioInput ''AAAA'']"
  by (simp add: state_defs run_defs)

subsection \<open>Stopping voice mode\<close>




subsection \<open>Inbound envelopes\<close>

text \<open>
  Claim C8. A malformed inbound envelope, that is a frame that is not JSON (or is the
  JSON \<open>null\<close>) or an envelope whose type tag is none of the known tags, is dropped and
  logged: the state after it is the state before it with the log lines added to the
  console. No turn flag and no session field changes, nothing is queued, played or sent,
  and a connection that was OPEN is OPEN.
\<close>

theorem malformed_envelope_dropped:
  "handleWebSocketMessage Unparseable s = s\<lparr>console := console s @ [ErrParsing]\<rparr> \<and>
   handleWebSocketMessage JsonNull s = s\<lparr>console := console s @ [ErrParsing]\<rparr> \<and>
   (t \<notin> Some ` set knownTags \<longrightarrow>
      handleWebSocketMessage (Envelope t d) s
        = s\<lparr>console := console s @ [LogReceived, LogUnknownType]\<rparr>) \<and>
   (websocket s = Some OPEN \<longrightarrow>
      websocket (handleWebSocketMessage Unparseable s) = Some OPEN \<and>
      (t \<notin> Some ` set knownTags \<longrightarrow>
         websocket (handleWebSocketMessage (Envelope t d) s) = Some OPEN))"
  by (simp add: handleWebSocketMessage_def dispatch_def knownTags_def log_def image_iff)

theorem malformed_envelope_dropped_witness:
  "Some ''bogus'' \<notin> Some ` set knownTags \<and>
   websocket speaking_state = Some OPEN \<and>
   handleWebSocketMessage Unparseable speaking_state
     = speaking_state\<lparr>console := console speaking_state @ [ErrParsing]\<rparr> \<and>
   handleWebSocketMessage (Envelope (Some ''bogus'') None) speaking_state
     = speaking_state\<lparr>console := console speaking_state @ [LogReceived, LogUnknownType]\<rparr> \<and>
   websocket (handleWebSocketMessage (Envelope (Some ''bogus'') None) speaking_state) = Some OPEN"
proof -
  have a: "Some ''bogus'' \<notin> Some ` set knownTags"
    by (simp add: knownTags_def image_iff)
  have b: "websocket speaking_state = Some OPEN"
    by (simp add: state_defs run_defs)
  show ?thesis
    using a b malformed_envelope_dropped [of speaking_state "Some ''bogus''" None]
    by blast
qed

text \<open>
  Claim C10. An \<open>audio_output\<close> message that arrives while voice mode is inactive, or
  whose payload has no audio (or that has no payload at all), changes nothing but the
  console: \<open>playAudio\<close> is not called, so the chunk is neither decoded nor enqueued nor
  played, and \<open>isListening\<close>, \<open>isAgentSpeaking\<close> and \<open>pendingAgentDone\<close> are
  unchanged.
\<close>

theorem audio_output_ignored:
  "(\<not> isVoiceModeActive s \<or> audio p = NoAudio \<longrightarrow>
      step s (WsMessage (Envelope (Some ''audio_output'') (Some p)))
        = s\<lparr>console := console s @ [LogReceived, LogAudioOutput]\<rparr>) \<and>
   step s (WsMessage (Envelope (Some ''audio_output'') None))
     = s\<lparr>console := console s @ [LogReceived, ErrParsing]\<rparr>"
  by (auto simp: handleWebSocketMessage_def dispatch_def handleAudioOutput_def log_def Let_def)

theorem audio_output_ignored_witness:
  "\<not> isVoiceModeActive init \<and>
   step init (audio_output [1]) = init\<lparr>console := [LogReceived, LogAudioOutput]\<rparr> \<and>
   audio \<lparr>audio = NoAudio, role = None, msg_text = Text, tool = None, result = Text\<rparr>
     = NoAudio \<and>
   step speaking_state
     (WsMessage (Envelope (Some ''audio_output'')
        (Some \<lparr>audio = NoAudio, role = None, msg_text = Text, tool = None,
               result = Text\<rparr>)))
     = speaking_state\<lparr>console := console speaking_state @ [LogReceived, LogAudioOutput]\<rparr>"
proof -
  have a: "\<not> isVoiceModeActive init" by (simp add: init_def)
  have c: "console init = []" by (simp add: init_def)
  show ?thesis
    using a c
      audio_output_ignored
        [of init "\<lparr>audio = Pcm16 [1], role = None, msg_text = Text, tool = None,
                   result = Text\<rparr>"]
      audio_output_ignored
        [of speaking_state "\<lparr>audio = NoAudio, role = None, msg_text = Text, tool = None,
                             result = Text\<rparr>"]
    by (simp add: audio_output_def)
qed

end
